theory Spec2Isabelle
  imports Complex_Main "HOL-Library.Signed_Division"
begin

section \<open>Data model of the cube (src/core/cube.js)\<close>

text \<open>
  JavaScript numbers are idealised as exact reals: positions, angles and quaternion
  components are \<^typ>\<open>real\<close>, so \<open>Math.PI\<close> is \<^term>\<open>pi\<close> and \<open>Math.round\<close> is
  rounding half up. Layers and directions are the integers the move table and the gesture
  code pass around. Axis names stay strings, since the source compares them with
  \<open>===\<close> and falls through on any other name.
\<close>

record vec3 =
  vx :: real
  vy :: real
  vz :: real

record quat =
  qx :: real
  qy :: real
  qz :: real
  qw :: real

text \<open>A face selector \<open>{axis, layer}\<close>, a move \<open>{axis, layer, direction}\<close>.\<close>

record face =
  axis :: string
  layer :: int

record move = face +
  direction :: int

definition cubeSize :: real where
  "cubeSize = 1"

definition gap :: real where
  "gap = 5 / 100"

definition totalSize :: real where
  "totalSize = cubeSize + gap"

definition CUBIE_POSITION_TOLERANCE :: real where
  "CUBIE_POSITION_TOLERANCE = 1 / 10"

text \<open>\<open>Math.round\<close>: the nearest integer, a tie going up.\<close>

definition js_round :: "real \<Rightarrow> int" where
  "js_round x = \<lfloor>x + 1 / 2\<rfloor>"

subsection \<open>Classification of a cubie by the outer faces it touches\<close>

text \<open>The six pushes of \<open>getCubieTypeAndNeighbors\<close>, in the order of the source.\<close>

definition touchedFaces :: "vec3 \<Rightarrow> face list" where
  "touchedFaces cubiePos =
     (if \<bar>vy cubiePos - totalSize\<bar> < CUBIE_POSITION_TOLERANCE
        then [\<lparr>axis = ''y'', layer = 1\<rparr>] else []) @
     (if \<bar>vy cubiePos + totalSize\<bar> < CUBIE_POSITION_TOLERANCE
        then [\<lparr>axis = ''y'', layer = - 1\<rparr>] else []) @
     (if \<bar>vx cubiePos - totalSize\<bar> < CUBIE_POSITION_TOLERANCE
        then [\<lparr>axis = ''x'', layer = 1\<rparr>] else []) @
     (if \<bar>vx cubiePos + totalSize\<bar> < CUBIE_POSITION_TOLERANCE
        then [\<lparr>axis = ''x'', layer = - 1\<rparr>] else []) @
     (if \<bar>vz cubiePos - totalSize\<bar> < CUBIE_POSITION_TOLERANCE
        then [\<lparr>axis = ''z'', layer = 1\<rparr>] else []) @
     (if \<bar>vz cubiePos + totalSize\<bar> < CUBIE_POSITION_TOLERANCE
        then [\<lparr>axis = ''z'', layer = - 1\<rparr>] else [])"

definition getCubieTypeAndNeighbors :: "string \<Rightarrow> int \<Rightarrow> vec3 \<Rightarrow> string \<times> face list" where
  "getCubieTypeAndNeighbors clickedAxis clickedLayer cubiePos =
     (let faces = touchedFaces cubiePos;
          neighborFaces =
            filter (\<lambda>f. \<not> (axis f = clickedAxis \<and> layer f = clickedLayer)) faces;
          cubieType =
            (if length faces = 1 then ''center''
             else if length faces = 2 then ''edge''
             else ''corner'')
      in (cubieType, neighborFaces))"

text \<open>
  \<open>selectCornerNeighborBySwipeDirection\<close>. A missing (\<open>null\<close>/\<open>undefined\<close>) list is
  \<^term>\<open>None\<close>, and so is the \<open>null\<close> result.
\<close>

definition selectCornerNeighborBySwipeDirection ::
    "face list option \<Rightarrow> real \<Rightarrow> real \<Rightarrow> face option" where
  "selectCornerNeighborBySwipeDirection neighborFaces deltaX deltaY =
     (case neighborFaces of
        None \<Rightarrow> None
      | Some nf \<Rightarrow>
          if length nf = 0 then None
          else
            let isHorizontalSwipe = \<bar>deltaX\<bar> > \<bar>deltaY\<bar> in
            if isHorizontalSwipe then
              (case find (\<lambda>f. axis f = ''y'') nf of
                 Some yNeighbor \<Rightarrow> Some yNeighbor
               | None \<Rightarrow> Some (hd nf))
            else
              (case find (\<lambda>f. axis f \<noteq> ''y'') nf of
                 Some sideNeighbor \<Rightarrow> Some sideNeighbor
               | None \<Rightarrow> Some (hd nf)))"

text \<open>The face test of \<open>getCubiesOnFace\<close>, with its own literal tolerance.\<close>

definition onFace :: "string \<Rightarrow> int \<Rightarrow> vec3 \<Rightarrow> bool" where
  "onFace ax v pos =
     (let tolerance = 1 / 10 in
      if ax = ''x'' then \<bar>vx pos - of_int v * totalSize\<bar> < tolerance
      else if ax = ''y'' then \<bar>vy pos - of_int v * totalSize\<bar> < tolerance
      else if ax = ''z'' then \<bar>vz pos - of_int v * totalSize\<bar> < tolerance
      else False)"

text \<open>The six outer faces, listed in the order in which the classification tests them.\<close>

definition outerFaces :: "face list" where
  "outerFaces =
     [\<lparr>axis = ''y'', layer = 1\<rparr>, \<lparr>axis = ''y'', layer = - 1\<rparr>,
      \<lparr>axis = ''x'', layer = 1\<rparr>, \<lparr>axis = ''x'', layer = - 1\<rparr>,
      \<lparr>axis = ''z'', layer = 1\<rparr>, \<lparr>axis = ''z'', layer = - 1\<rparr>]"

definition touchCount :: "vec3 \<Rightarrow> nat" where
  "touchCount pos = length (filter (\<lambda>f. onFace (axis f) (layer f) pos) outerFaces)"

subsection \<open>Cubies and their creation\<close>

datatype color = white | yellow | red | orange | blue | green | black

text \<open>
  The scene-graph parent of a cubie: none yet, the cube group, or the transient rotation
  group. The cubies of the rotation group are the \<open>faceCubies\<close> of the rotation in flight.
\<close>

datatype node = Detached | CubeGroup | RotationGroup

record cubie =
  materials :: "color list"
  position :: vec3
  quaternion :: quat
  logicalPos :: "int \<times> int \<times> int"
  parent :: node

definition createCubie :: "int \<Rightarrow> int \<Rightarrow> int \<Rightarrow> cubie" where
  "createCubie x y z =
     \<lparr>materials =
        [if x = 1 then red else black,
         if x = - 1 then orange else black,
         if y = 1 then white else black,
         if y = - 1 then yellow else black,
         if z = 1 then blue else black,
         if z = - 1 then green else black],
      position =
        \<lparr>vx = of_int x * totalSize, vy = of_int y * totalSize, vz = of_int z * totalSize\<rparr>,
      quaternion = \<lparr>qx = 0, qy = 0, qz = 0, qw = 1\<rparr>,
      logicalPos = (x, y, z),
      parent = Detached\<rparr>"

subsection \<open>Requests, callbacks and the state of a \<open>RubiksCube\<close>\<close>

text \<open>
  The callbacks that the class itself passes to \<open>rotateFace\<close> are the two closures
  \<open>() => { index++; doNextMove(); }\<close> of \<open>scramble\<close> and of \<open>solve\<close>. A closure is
  represented by what it captures: the list of moves, the current \<open>index\<close>, and whether
  an \<open>onComplete\<close> was given.
\<close>

datatype callback =
    ScrambleNext "string list" nat bool
  | SolveNext "move list" nat bool

text \<open>An entry of the animation queue: \<open>{axis, layer, direction, record, callback}\<close>.\<close>

record request = move +
  record_flag :: bool
  callback :: "callback option"

text \<open>What an \<open>onComplete\<close> was called with.\<close>

datatype notice = ScrambleComplete | SolveComplete bool

text \<open>
  The fields of the class, the rotation whose \<open>animate\<close> closure is waiting for its
  next frame (\<open>running\<close>), and the calls made to \<open>onComplete\<close> so far (\<open>notified\<close>).
\<close>

record rubiks_cube =
  cubies :: "cubie list"
  moveHistory :: "move list"
  isAnimating :: bool
  animationQueue :: "request list"
  running :: "request option"
  notified :: "notice list"

definition apostrophe :: string where
  "apostrophe = [CHR 0x27]"

definition MOVES :: "(string \<times> move) list" where
  "MOVES =
     [(''R'', \<lparr>axis = ''x'', layer = 1, direction = - 1\<rparr>),
      (''R'' @ apostrophe, \<lparr>axis = ''x'', layer = 1, direction = 1\<rparr>),
      (''L'', \<lparr>axis = ''x'', layer = - 1, direction = 1\<rparr>),
      (''L'' @ apostrophe, \<lparr>axis = ''x'', layer = - 1, direction = - 1\<rparr>),
      (''U'', \<lparr>axis = ''y'', layer = 1, direction = - 1\<rparr>),
      (''U'' @ apostrophe, \<lparr>axis = ''y'', layer = 1, direction = 1\<rparr>),
      (''D'', \<lparr>axis = ''y'', layer = - 1, direction = 1\<rparr>),
      (''D'' @ apostrophe, \<lparr>axis = ''y'', layer = - 1, direction = - 1\<rparr>),
      (''F'', \<lparr>axis = ''z'', layer = 1, direction = - 1\<rparr>),
      (''F'' @ apostrophe, \<lparr>axis = ''z'', layer = 1, direction = 1\<rparr>),
      (''B'', \<lparr>axis = ''z'', layer = - 1, direction = 1\<rparr>),
      (''B'' @ apostrophe, \<lparr>axis = ''z'', layer = - 1, direction = - 1\<rparr>)]"

text \<open>The constructor, and \<open>initCube\<close> with its three nested loops from -1 to 1.\<close>

definition newCube :: rubiks_cube where
  "newCube =
     \<lparr>cubies = [], moveHistory = [], isAnimating = False, animationQueue = [],
      running = None, notified = []\<rparr>"

definition initCube :: "rubiks_cube \<Rightarrow> rubiks_cube" where
  "initCube s =
     s\<lparr>cubies :=
         concat (map (\<lambda>x. concat (map (\<lambda>y. map (\<lambda>z.
           (createCubie x y z)\<lparr>parent := CubeGroup\<rparr>) [- 1 .. 1]) [- 1 .. 1])) [- 1 .. 1]),
       moveHistory := [],
       animationQueue := []\<rparr>"

definition getCubiesOnFace :: "string \<Rightarrow> int \<Rightarrow> rubiks_cube \<Rightarrow> cubie list" where
  "getCubiesOnFace ax v s = filter (\<lambda>cubie. onFace ax v (position cubie)) (cubies s)"

subsection \<open>The rotation engine\<close>

text \<open>
  What three.js computes for the transient group. Setting \<open>rotation.x\<close> (or \<open>y\<close>, \<open>z\<close>)
  of the group to an angle turns its children about that axis; for any other axis name the
  \<open>switch\<close> sets nothing. \<open>getWorldPosition\<close> followed by \<open>cubeGroup.worldToLocal\<close> leaves
  the position of the child in the frame of the cube group, and the world quaternion
  premultiplied by the inverse of the cube group's is the group's quaternion times the
  child's: in both, the cube group's own world transform cancels.
\<close>

definition rotatePoint :: "string \<Rightarrow> real \<Rightarrow> vec3 \<Rightarrow> vec3" where
  "rotatePoint ax a p =
     (if ax = ''x'' then
        \<lparr>vx = vx p, vy = vy p * cos a - vz p * sin a, vz = vy p * sin a + vz p * cos a\<rparr>
      else if ax = ''y'' then
        \<lparr>vx = vx p * cos a + vz p * sin a, vy = vy p, vz = - vx p * sin a + vz p * cos a\<rparr>
      else if ax = ''z'' then
        \<lparr>vx = vx p * cos a - vy p * sin a, vy = vx p * sin a + vy p * cos a, vz = vz p\<rparr>
      else p)"

definition groupQuaternion :: "string \<Rightarrow> real \<Rightarrow> quat" where
  "groupQuaternion ax a =
     (if ax = ''x'' then \<lparr>qx = sin (a / 2), qy = 0, qz = 0, qw = cos (a / 2)\<rparr>
      else if ax = ''y'' then \<lparr>qx = 0, qy = sin (a / 2), qz = 0, qw = cos (a / 2)\<rparr>
      else if ax = ''z'' then \<lparr>qx = 0, qy = 0, qz = sin (a / 2), qw = cos (a / 2)\<rparr>
      else \<lparr>qx = 0, qy = 0, qz = 0, qw = 1\<rparr>)"

definition multiplyQuaternions :: "quat \<Rightarrow> quat \<Rightarrow> quat" where
  "multiplyQuaternions a b =
     \<lparr>qx = qx a * qw b + qw a * qx b + qy a * qz b - qz a * qy b,
      qy = qy a * qw b + qw a * qy b + qz a * qx b - qx a * qz b,
      qz = qz a * qw b + qw a * qz b + qx a * qy b - qy a * qx b,
      qw = qw a * qw b - qx a * qx b - qy a * qy b - qz a * qz b\<rparr>"

text \<open>
  The commit of one cubie of the rotation group, the group standing at \<open>groupAngle\<close>
  about \<open>ax\<close>: the position is rounded to the grid, the orientation taken over, and the
  cubie handed back to the cube group.
\<close>

definition commitCubie :: "string \<Rightarrow> real \<Rightarrow> cubie \<Rightarrow> cubie" where
  "commitCubie ax groupAngle c =
     (let pos = rotatePoint ax groupAngle (position c);
          pos = \<lparr>vx = of_int (js_round (vx pos / totalSize)) * totalSize,
                 vy = of_int (js_round (vy pos / totalSize)) * totalSize,
                 vz = of_int (js_round (vz pos / totalSize)) * totalSize\<rparr>;
          worldQuaternion = multiplyQuaternions (groupQuaternion ax groupAngle) (quaternion c)
      in c\<lparr>position := pos, quaternion := worldQuaternion, parent := CubeGroup\<rparr>)"

definition rotateFace ::
    "string \<Rightarrow> int \<Rightarrow> int \<Rightarrow> bool \<Rightarrow> callback option \<Rightarrow> rubiks_cube \<Rightarrow> rubiks_cube" where
  "rotateFace ax l d rec cb s =
     (if isAnimating s then
        s\<lparr>animationQueue := animationQueue s @
            [\<lparr>axis = ax, layer = l, direction = d, record_flag = rec, callback = cb\<rparr>]\<rparr>
      else
        let faceCubies = getCubiesOnFace ax l s in
        s\<lparr>isAnimating := True,
          cubies := map (\<lambda>cubie. if cubie \<in> set faceCubies
                                   then cubie\<lparr>parent := RotationGroup\<rparr> else cubie) (cubies s),
          running :=
            Some \<lparr>axis = ax, layer = l, direction = d, record_flag = rec, callback = cb\<rparr>\<rparr>)"

text \<open>
  \<open>executeMove\<close> looks the name up among the twelve keys of the table. Names that a
  JavaScript object inherits, such as \<open>constructor\<close>, are not keys of the table and are
  not modelled; neither \<open>scramble\<close> nor the keyboard handler passes one.
\<close>

definition executeMove :: "string \<Rightarrow> bool \<Rightarrow> callback option \<Rightarrow> rubiks_cube \<Rightarrow> rubiks_cube" where
  "executeMove moveName rec cb s =
     (case map_of MOVES moveName of
        None \<Rightarrow> s
      | Some m \<Rightarrow> rotateFace (axis m) (layer m) (direction m) rec cb s)"

text \<open>The \<open>doNextMove\<close> of \<open>scramble\<close> and of \<open>solve\<close>, and the call of a callback.\<close>

definition scrambleDoNextMove :: "string list \<Rightarrow> nat \<Rightarrow> bool \<Rightarrow> rubiks_cube \<Rightarrow> rubiks_cube" where
  "scrambleDoNextMove scrambleMoves index onComplete s =
     (if index < length scrambleMoves then
        executeMove (scrambleMoves ! index) True
          (Some (ScrambleNext scrambleMoves index onComplete)) s
      else if onComplete then s\<lparr>notified := notified s @ [ScrambleComplete]\<rparr>
      else s)"

definition solveDoNextMove :: "move list \<Rightarrow> nat \<Rightarrow> bool \<Rightarrow> rubiks_cube \<Rightarrow> rubiks_cube" where
  "solveDoNextMove solveMoves index onComplete s =
     (if index < length solveMoves then
        let m = solveMoves ! index in
        rotateFace (axis m) (layer m) (- direction m) False
          (Some (SolveNext solveMoves index onComplete)) s
      else if onComplete then s\<lparr>notified := notified s @ [SolveComplete False]\<rparr>
      else s)"

fun invoke :: "callback \<Rightarrow> rubiks_cube \<Rightarrow> rubiks_cube" where
  "invoke (ScrambleNext scrambleMoves index onComplete) s =
     scrambleDoNextMove scrambleMoves (index + 1) onComplete s"
| "invoke (SolveNext solveMoves index onComplete) s =
     solveDoNextMove solveMoves (index + 1) onComplete s"

text \<open>
  One frame of the closure \<open>animate\<close>, \<open>elapsed\<close> milliseconds after the rotation
  started. Before the duration has elapsed it only turns the group on screen; from then
  on it commits the cubies of the group, records the move, calls the callback and then
  serves the queue.
\<close>

definition duration :: real where
  "duration = 200"

definition animate :: "real \<Rightarrow> rubiks_cube \<Rightarrow> rubiks_cube" where
  "animate elapsed s =
     (case running s of
        None \<Rightarrow> s
      | Some r \<Rightarrow>
          let angle = of_int (direction r) * pi / 2;
              progress = min (elapsed / duration) 1;
              eased = 1 - (1 - progress) ^ 3;
              currentAngle = angle * eased
          in
          if progress < 1 then s
          else
            let s1 = s\<lparr>cubies := map (\<lambda>cubie. if parent cubie = RotationGroup
                                        then commitCubie (axis r) currentAngle cubie
                                        else cubie) (cubies s),
                       running := None\<rparr>;
                s2 = (if record_flag r
                      then s1\<lparr>moveHistory := moveHistory s1 @
                          [\<lparr>axis = axis r, layer = layer r, direction = direction r\<rparr>]\<rparr>
                      else s1);
                s3 = s2\<lparr>isAnimating := False\<rparr>;
                s4 = (case callback r of None \<Rightarrow> s3 | Some cb \<Rightarrow> invoke cb s3)
            in
            if length (animationQueue s4) > 0 then
              let next = hd (animationQueue s4);
                  s5 = s4\<lparr>animationQueue := tl (animationQueue s4)\<rparr>
              in rotateFace (axis next) (layer next) (direction next)
                   (record_flag next) (callback next) s5
            else s4)"

text \<open>The frame on which the duration of the rotation has just elapsed.\<close>

definition complete :: "rubiks_cube \<Rightarrow> rubiks_cube" where
  "complete s = animate duration s"

subsection \<open>Scramble, solve, reset\<close>

text \<open>
  \<open>Math.random\<close> is the sequence \<open>random\<close> of the values it returns, two per move.
  An index outside \<open>moveNames\<close> reads \<open>undefined\<close>, which no entry of the table is named.
\<close>

definition moveNames :: "string list" where
  "moveNames = filter (\<lambda>m. CHR 0x27 \<notin> set m) (map fst MOVES)"

definition scrambleMoves :: "(nat \<Rightarrow> real) \<Rightarrow> string list" where
  "scrambleMoves random =
     map (\<lambda>i.
       let k = \<lfloor>random (2 * i) * real (length moveNames)\<rfloor>;
           randomMove = (if 0 \<le> k \<and> k < int (length moveNames)
                         then moveNames ! nat k else ''undefined'')
       in if random (2 * i + 1) > 1 / 2 then randomMove @ apostrophe else randomMove)
     [0 ..< 20]"

definition scramble :: "(nat \<Rightarrow> real) \<Rightarrow> bool \<Rightarrow> rubiks_cube \<Rightarrow> rubiks_cube" where
  "scramble random onComplete s =
     (if isAnimating s \<or> length (animationQueue s) > 0 then s
      else scrambleDoNextMove (scrambleMoves random) 0 onComplete s)"

definition solve :: "bool \<Rightarrow> rubiks_cube \<Rightarrow> rubiks_cube" where
  "solve onComplete s =
     (if isAnimating s \<or> length (animationQueue s) > 0 then s
      else if length (moveHistory s) = 0 then
        (if onComplete then s\<lparr>notified := notified s @ [SolveComplete True]\<rparr> else s)
      else
        let solveMoves = rev (moveHistory s) in
        solveDoNextMove solveMoves 0 onComplete (s\<lparr>moveHistory := []\<rparr>))"

definition reset :: "rubiks_cube \<Rightarrow> rubiks_cube" where
  "reset s = (if isAnimating s \<or> length (animationQueue s) > 0 then s else initCube s)"

definition recordMove :: "string \<Rightarrow> int \<Rightarrow> int \<Rightarrow> rubiks_cube \<Rightarrow> rubiks_cube" where
  "recordMove ax l d s =
     s\<lparr>moveHistory := moveHistory s @ [\<lparr>axis = ax, layer = l, direction = d\<rparr>]\<rparr>"

text \<open>
  The states the public operations of the class lead to from a freshly initialised cube.
\<close>

inductive reachable :: "rubiks_cube \<Rightarrow> bool" where
  reach_init: "reachable (initCube newCube)"
| reach_rotateFace: "reachable s \<Longrightarrow> reachable (rotateFace ax l d rec cb s)"
| reach_executeMove: "reachable s \<Longrightarrow> reachable (executeMove moveName rec cb s)"
| reach_animate: "reachable s \<Longrightarrow> reachable (animate elapsed s)"
| reach_scramble: "reachable s \<Longrightarrow> reachable (scramble random onComplete s)"
| reach_solve: "reachable s \<Longrightarrow> reachable (solve onComplete s)"
| reach_reset: "reachable s \<Longrightarrow> reachable (reset s)"
| reach_recordMove: "reachable s \<Longrightarrow> reachable (recordMove ax l d s)"

text \<open>
  A move played to its end on an idle cube: requested with recording and no callback,
  then the frame that commits it. The requests that the next \<open>n\<close> committing frames commit.
\<close>

definition play :: "move \<Rightarrow> rubiks_cube \<Rightarrow> rubiks_cube" where
  "play m s = complete (rotateFace (axis m) (layer m) (direction m) True None s)"

fun commits :: "nat \<Rightarrow> rubiks_cube \<Rightarrow> request list" where
  "commits 0 s = []"
| "commits (Suc n) s =
     (case running s of None \<Rightarrow> [] | Some r \<Rightarrow> r # commits n (complete s))"

text \<open>The 27 points of the grid, and the solved arrangement.\<close>

definition gridPoints :: "vec3 list" where
  "gridPoints =
     concat (map (\<lambda>x. concat (map (\<lambda>y. map (\<lambda>z.
       \<lparr>vx = of_int x * totalSize, vy = of_int y * totalSize, vz = of_int z * totalSize\<rparr>)
       [- 1, 0, 1 :: int]) [- 1, 0, 1 :: int])) [- 1, 0, 1 :: int])"

definition coordinate :: "string \<Rightarrow> vec3 \<Rightarrow> real" where
  "coordinate ax p = (if ax = ''x'' then vx p else if ax = ''y'' then vy p else vz p)"

subsection \<open>Completing a swipe (the gesture code of the single-file script)\<close>

text \<open>
  The part of \<open>touchState\<close> that the completion of a swipe reads and writes.
  \<open>swipeAxis\<close> and \<open>swipeLayer\<close> are assigned together wherever they are assigned, so
  they are one optional face selector; \<open>rotationGroup\<close> says whether the transient group
  exists, its children being the cubies whose parent it is. The script keeps \<open>cubies\<close> and
  \<open>moveHistory\<close> in globals of the same names as the fields of the class.
\<close>

record touch_state =
  rotationGroup :: bool
  swipe :: "face option"
  currentRotation :: real

text \<open>The remainder \<open>%\<close> of JavaScript takes the sign of the dividend.\<close>

definition js_rem :: "int \<Rightarrow> int \<Rightarrow> int" where
  "js_rem a b = a smod b"

definition finalizeFaceRotation ::
    "real \<Rightarrow> touch_state \<times> rubiks_cube \<Rightarrow> touch_state \<times> rubiks_cube" where
  "finalizeFaceRotation finalAngle st =
     (case st of (ts, s) \<Rightarrow>
        (case swipe ts of
           None \<Rightarrow> st
         | Some f \<Rightarrow>
             if \<not> rotationGroup ts then st
             else
               let quarterTurns = js_round (finalAngle / (pi / 2));
                   cs = map (\<lambda>cubie. if parent cubie = RotationGroup
                                       then commitCubie (axis f) finalAngle cubie
                                       else cubie) (cubies s);
                   normalizedTurns = js_rem (js_rem quarterTurns 4 + 4) 4;
                   pushed =
                     (if normalizedTurns = 1 then
                        [\<lparr>axis = axis f, layer = layer f, direction = 1\<rparr>]
                      else if normalizedTurns = 3 then
                        [\<lparr>axis = axis f, layer = layer f, direction = - 1\<rparr>]
                      else if normalizedTurns = 2 then
                        [\<lparr>axis = axis f, layer = layer f, direction = 1\<rparr>,
                         \<lparr>axis = axis f, layer = layer f, direction = 1\<rparr>]
                      else [])
               in (ts\<lparr>rotationGroup := False, swipe := None, currentRotation := 0\<rparr>,
                   s\<lparr>cubies := cs, moveHistory := moveHistory s @ pushed\<rparr>)))"

text \<open>
  \<open>completeFaceRotation\<close>, taken to the end of its snap animation: already at the snap
  position it finalises at once; otherwise the last frame of the animation has set the
  current rotation to \<open>startAngle + remainingAngle\<close> when it finalises.
\<close>

definition completeFaceRotation :: "touch_state \<times> rubiks_cube \<Rightarrow> touch_state \<times> rubiks_cube" where
  "completeFaceRotation st =
     (case st of (ts, s) \<Rightarrow>
        if \<not> rotationGroup ts \<or> swipe ts = None then st
        else
          let currentAngle = currentRotation ts;
              snapAngle = of_int (js_round (currentAngle / (pi / 2))) * (pi / 2);
              remainingAngle = snapAngle - currentAngle
          in
          if \<bar>remainingAngle\<bar> < 1 / 100 then finalizeFaceRotation snapAngle (ts, s)
          else
            let startAngle = currentAngle;
                eased = 1 - (1 - (1::real)) ^ 3;
                angle = startAngle + remainingAngle * eased
            in finalizeFaceRotation snapAngle (ts\<lparr>currentRotation := angle\<rparr>, s))"

text \<open>
  An idle cube: nothing animating, nothing queued, every cubie in the cube group. On an
  idle cube a rotation that is requested and then committed changes the cubies by \<open>turn\<close>:
  the cubies on the face are committed with the group a quarter turn times \<open>d\<close> on.
\<close>

definition idle :: "rubiks_cube \<Rightarrow> bool" where
  "idle s \<longleftrightarrow>
     \<not> isAnimating s \<and> running s = None \<and> animationQueue s = [] \<and>
     (\<forall>c\<in>set (cubies s). parent c = CubeGroup)"

definition turn :: "string \<Rightarrow> int \<Rightarrow> int \<Rightarrow> cubie list \<Rightarrow> cubie list" where
  "turn ax l d cs =
     map (\<lambda>c. if onFace ax l (position c) then commitCubie ax (of_int d * pi / 2) c else c) cs"

text \<open>Where a quarter turn times \<open>d\<close> of the face takes a point of the grid.\<close>

definition moved :: "string \<Rightarrow> int \<Rightarrow> int \<Rightarrow> vec3 \<Rightarrow> vec3" where
  "moved ax l d p = (if onFace ax l p then rotatePoint ax (of_int d * pi / 2) p else p)"

text \<open>The cubies stand on the grid: their positions are the 27 points, each taken once.\<close>

definition onGrid :: "cubie list \<Rightarrow> bool" where
  "onGrid cs \<longleftrightarrow> distinct (map position cs) \<and> set (map position cs) = set gridPoints"

text \<open>
  The final frame in two parts: the state once the cubies are committed, the move is
  recorded and the flag is reset, which is the state the callback is called in; and the
  service of the queue that follows the callback.
\<close>

definition committed :: "request \<Rightarrow> rubiks_cube \<Rightarrow> rubiks_cube" where
  "committed r s =
     (let s1 = s\<lparr>cubies := map (\<lambda>cubie. if parent cubie = RotationGroup
                                 then commitCubie (axis r) (of_int (direction r) * pi / 2) cubie
                                 else cubie) (cubies s),
                running := None\<rparr>;
          s2 = (if record_flag r
                then s1\<lparr>moveHistory := moveHistory s1 @
                    [\<lparr>axis = axis r, layer = layer r, direction = direction r\<rparr>]\<rparr>
                else s1)
      in s2\<lparr>isAnimating := False\<rparr>)"

definition serveQueue :: "rubiks_cube \<Rightarrow> rubiks_cube" where
  "serveQueue s =
     (if length (animationQueue s) > 0 then
        let next = hd (animationQueue s)
        in rotateFace (axis next) (layer next) (direction next) (record_flag next)
             (callback next) (s\<lparr>animationQueue := tl (animationQueue s)\<rparr>)
      else s)"

text \<open>A recorded move applied to the cubies, and its reversal as \<open>solve\<close> requests it.\<close>

definition applyMove :: "move \<Rightarrow> cubie list \<Rightarrow> cubie list" where
  "applyMove m = turn (axis m) (layer m) (direction m)"

definition undoMove :: "move \<Rightarrow> cubie list \<Rightarrow> cubie list" where
  "undoMove m = turn (axis m) (layer m) (- direction m)"

definition negated :: "move \<Rightarrow> move" where
  "negated m = \<lparr>axis = axis m, layer = layer m, direction = - direction m\<rparr>"

definition requestedMove :: "request \<Rightarrow> move" where
  "requestedMove r = \<lparr>axis = axis r, layer = layer r, direction = direction r\<rparr>"

text \<open>
  What holds of every reachable state. The cubies stand on the grid, the flag
  \<open>isAnimating\<close> says whether a rotation is waiting for its frames, and the cubies in the
  rotation group are those of the face of that rotation; and between rotations the queue
  is empty.
\<close>

definition wellFormed :: "rubiks_cube \<Rightarrow> bool" where
  "wellFormed s \<longleftrightarrow>
     onGrid (cubies s) \<and> (isAnimating s \<longleftrightarrow> running s \<noteq> None) \<and>
     (running s = None \<longrightarrow> (\<forall>c\<in>set (cubies s). parent c = CubeGroup)) \<and>
     (\<forall>r. running s = Some r \<longrightarrow> (\<forall>c\<in>set (cubies s).
        parent c = (if onFace (axis r) (layer r) (position c) then RotationGroup else CubeGroup)))"

definition invariant :: "rubiks_cube \<Rightarrow> bool" where
  "invariant s \<longleftrightarrow> wellFormed s \<and> (\<not> isAnimating s \<longrightarrow> animationQueue s = [])"

definition solved :: "cubie list" where
  "solved = cubies (initCube newCube)"

section \<open>Classification of cubies\<close>

lemma totalSize_eq: "totalSize = 21 / 20"
  by (simp add: totalSize_def cubeSize_def gap_def)

lemma face_eq_iff: "(f = \<lparr>axis = a, layer = l\<rparr>) = (axis f = a \<and> layer f = l)"
  by (cases f) simp

lemma touchedFaces_outer:
  "touchedFaces pos = filter (\<lambda>f. onFace (axis f) (layer f) pos) outerFaces"
  by (simp add: touchedFaces_def outerFaces_def onFace_def CUBIE_POSITION_TOLERANCE_def)

lemma opposite_faces_exclusive:
  "\<not> (\<bar>a - totalSize\<bar> < CUBIE_POSITION_TOLERANCE \<and> \<bar>a + totalSize\<bar> < CUBIE_POSITION_TOLERANCE)"
  unfolding totalSize_def cubeSize_def gap_def CUBIE_POSITION_TOLERANCE_def by linarith

lemma length_touchedFaces_le_3: "length (touchedFaces pos) \<le> 3"
  using opposite_faces_exclusive [of "vx pos"] opposite_faces_exclusive [of "vy pos"]
    opposite_faces_exclusive [of "vz pos"]
  by (auto simp: touchedFaces_def)

lemma distinct_outerFaces: "distinct outerFaces"
  by (simp add: outerFaces_def)

lemma distinct_touchedFaces: "distinct (touchedFaces pos)"
  by (simp add: touchedFaces_outer distinct_outerFaces)

lemma filter_neq_absent: "x \<notin> set xs \<Longrightarrow> filter (\<lambda>y. y \<noteq> x) xs = xs"
  by (induction xs) auto

lemma length_filter_neq:
  "distinct xs \<Longrightarrow> x \<in> set xs \<Longrightarrow> length (filter (\<lambda>y. y \<noteq> x) xs) = length xs - 1"
proof (induction xs)
  case Nil
  then show ?case by simp
next
  case (Cons a xs)
  show ?case
  proof (cases "a = x")
    case True
    then show ?thesis using Cons.prems by (simp add: filter_neq_absent)
  next
    case False
    then have "x \<in> set xs" using Cons.prems by simp
    then have "0 < length xs" by (rule length_pos_if_in_set)
    then show ?thesis using Cons False \<open>x \<in> set xs\<close> by simp
  qed
qed

lemma clicked_in_touchedFaces:
  assumes "clickedAxis \<in> {''x'', ''y'', ''z''}" "clickedLayer \<in> {1, - 1}"
    "onFace clickedAxis clickedLayer pos"
  shows "\<lparr>axis = clickedAxis, layer = clickedLayer\<rparr> \<in> set (touchedFaces pos)"
  using assms by (auto simp: touchedFaces_outer outerFaces_def)

text \<open>
  C9. A position on the clicked outer face touches one, two or three outer faces; the
  type returned is center, edge or corner accordingly, and the neighbour faces are the
  outer faces the position lies on other than the clicked one, so there is one fewer of
  them than faces touched: none for a center, one for an edge, two for a corner.
\<close>

theorem classify_on_clicked_face:
  assumes "clickedAxis \<in> {''x'', ''y'', ''z''}" and "clickedLayer \<in> {1, - 1}"
    and "onFace clickedAxis clickedLayer pos"
  shows "case getCubieTypeAndNeighbors clickedAxis clickedLayer pos of
           (cubieType, neighborFaces) \<Rightarrow>
             touchCount pos \<in> {1, 2, 3} \<and>
             cubieType = (if touchCount pos = 1 then ''center''
                          else if touchCount pos = 2 then ''edge'' else ''corner'') \<and>
             neighborFaces =
               filter (\<lambda>f. onFace (axis f) (layer f) pos \<and>
                         f \<noteq> \<lparr>axis = clickedAxis, layer = clickedLayer\<rparr>) outerFaces \<and>
             length neighborFaces = touchCount pos - 1"
proof -
  let ?c = "\<lparr>axis = clickedAxis, layer = clickedLayer\<rparr>"
  have len: "length (touchedFaces pos) = touchCount pos"
    by (simp add: touchedFaces_outer touchCount_def)
  have mem: "?c \<in> set (touchedFaces pos)"
    using assms by (rule clicked_in_touchedFaces)
  then have pos: "0 < touchCount pos"
    using len by (metis length_pos_if_in_set)
  have le: "touchCount pos \<le> 3"
    using length_touchedFaces_le_3 [of pos] len by simp
  have nf: "filter (\<lambda>f. \<not> (axis f = clickedAxis \<and> layer f = clickedLayer)) (touchedFaces pos)
      = filter (\<lambda>f. f \<noteq> ?c) (touchedFaces pos)"
    by (simp add: face_eq_iff)
  have nlen: "length (filter (\<lambda>f. f \<noteq> ?c) (touchedFaces pos)) = touchCount pos - 1"
    using length_filter_neq [OF distinct_touchedFaces mem] len by simp
  have nf2: "filter (\<lambda>f. f \<noteq> ?c) (touchedFaces pos)
      = filter (\<lambda>f. onFace (axis f) (layer f) pos \<and> f \<noteq> ?c) outerFaces"
    by (simp add: touchedFaces_outer conj_commute)
  have range: "touchCount pos \<in> {1, 2, 3}"
    using pos le by auto
  show ?thesis
    unfolding getCubieTypeAndNeighbors_def Let_def prod.case nf
    using range nlen nf2 len by simp
qed

lemma touchCount_corner: "touchCount \<lparr>vx = totalSize, vy = totalSize, vz = totalSize\<rparr> = 3"
  by (simp add: touchCount_def outerFaces_def onFace_def totalSize_eq)

theorem classify_on_clicked_face_witness:
  "''z'' \<in> {''x'', ''y'', ''z''} \<and> (1::int) \<in> {1, - 1} \<and>
   onFace ''z'' 1 \<lparr>vx = totalSize, vy = totalSize, vz = totalSize\<rparr> \<and>
   getCubieTypeAndNeighbors ''z'' 1 \<lparr>vx = totalSize, vy = totalSize, vz = totalSize\<rparr> =
     (''corner'', [\<lparr>axis = ''y'', layer = 1\<rparr>, \<lparr>axis = ''x'', layer = 1\<rparr>])"
proof -
  let ?p = "\<lparr>vx = totalSize, vy = totalSize, vz = totalSize\<rparr>"
  have a: "''z'' \<in> {''x'', ''y'', ''z''}" by simp
  have l: "(1::int) \<in> {1, - 1}" by simp
  have f: "onFace ''z'' 1 ?p" by (simp add: onFace_def)
  have n: "filter (\<lambda>f. onFace (axis f) (layer f) ?p \<and> f \<noteq> \<lparr>axis = ''z'', layer = 1\<rparr>) outerFaces
     = [\<lparr>axis = ''y'', layer = 1\<rparr>, \<lparr>axis = ''x'', layer = 1\<rparr>]"
    by (simp add: outerFaces_def onFace_def totalSize_eq)
  show ?thesis
    using classify_on_clicked_face [OF a l f] a l f
    by (simp add: touchCount_corner n split: prod.splits)
qed

text \<open>
  C10. A position that touches none of the six outer faces, such as the hidden cubie at
  the origin, is classified as a corner with no neighbour faces, whatever face was
  clicked: the type is corner for every number of faces other than one and two.
\<close>

theorem classify_no_outer_face:
  assumes "touchCount pos = 0"
  shows "getCubieTypeAndNeighbors clickedAxis clickedLayer pos = (''corner'', [])"
proof -
  have "touchedFaces pos = []"
    using assms by (simp add: touchedFaces_outer touchCount_def)
  then show ?thesis
    by (simp add: getCubieTypeAndNeighbors_def)
qed

theorem classify_no_outer_face_witness:
  "touchCount \<lparr>vx = 0, vy = 0, vz = 0\<rparr> = 0 \<and>
   getCubieTypeAndNeighbors ''z'' 1 \<lparr>vx = 0, vy = 0, vz = 0\<rparr> = (''corner'', [])"
proof -
  have z: "touchCount \<lparr>vx = 0, vy = 0, vz = 0\<rparr> = 0"
    by (simp add: touchCount_def outerFaces_def onFace_def totalSize_eq)
  show ?thesis
    using classify_no_outer_face [OF z, of "''z''" 1] z by simp
qed

section \<open>Corner disambiguation\<close>

text \<open>
  C8. The selection returns nothing for a missing or empty list. For a non-empty list it
  returns an element of the list: on a horizontal swipe (\<open>|deltaX| > |deltaY|\<close>) the
  first neighbour on the \<open>y\<close> axis, otherwise the first neighbour off the \<open>y\<close> axis, and
  the first listed neighbour when there is none of the preferred kind. Being a function of
  its three arguments, it gives the same answer for the same list and displacement.
\<close>

theorem selectCornerNeighbor_choice:
  "selectCornerNeighborBySwipeDirection None deltaX deltaY = None \<and>
   selectCornerNeighborBySwipeDirection (Some []) deltaX deltaY = None \<and>
   (nf \<noteq> [] \<longrightarrow>
     (\<exists>i<length nf. selectCornerNeighborBySwipeDirection (Some nf) deltaX deltaY = Some (nf ! i) \<and>
        (if \<bar>deltaX\<bar> > \<bar>deltaY\<bar>
         then (axis (nf ! i) = ''y'' \<and> (\<forall>j<i. axis (nf ! j) \<noteq> ''y'')) \<or>
              (i = 0 \<and> (\<forall>f\<in>set nf. axis f \<noteq> ''y''))
         else (axis (nf ! i) \<noteq> ''y'' \<and> (\<forall>j<i. axis (nf ! j) = ''y'')) \<or>
              (i = 0 \<and> (\<forall>f\<in>set nf. axis f = ''y'')))))"
proof (intro conjI impI)
  show "selectCornerNeighborBySwipeDirection None deltaX deltaY = None"
    by (simp add: selectCornerNeighborBySwipeDirection_def)
  show "selectCornerNeighborBySwipeDirection (Some []) deltaX deltaY = None"
    by (simp add: selectCornerNeighborBySwipeDirection_def)
next
  assume ne: "nf \<noteq> []"
  then have hd: "hd nf = nf ! 0" and len: "0 < length nf"
    by (simp_all add: hd_conv_nth)
  have pick: "\<And>P. (\<exists>i<length nf. find P nf = Some (nf ! i) \<and> P (nf ! i) \<and> (\<forall>j<i. \<not> P (nf ! j)))
      \<or> (find P nf = None \<and> (\<forall>f\<in>set nf. \<not> P f))"
  proof -
    fix P :: "face \<Rightarrow> bool"
    show "(\<exists>i<length nf. find P nf = Some (nf ! i) \<and> P (nf ! i) \<and> (\<forall>j<i. \<not> P (nf ! j)))
      \<or> (find P nf = None \<and> (\<forall>f\<in>set nf. \<not> P f))"
    proof (cases "find P nf")
      case None
      then show ?thesis by (simp add: find_None_iff)
    next
      case (Some f)
      then show ?thesis by (auto simp: find_Some_iff)
    qed
  qed
  show "\<exists>i<length nf. selectCornerNeighborBySwipeDirection (Some nf) deltaX deltaY = Some (nf ! i) \<and>
        (if \<bar>deltaX\<bar> > \<bar>deltaY\<bar>
         then (axis (nf ! i) = ''y'' \<and> (\<forall>j<i. axis (nf ! j) \<noteq> ''y'')) \<or>
              (i = 0 \<and> (\<forall>f\<in>set nf. axis f \<noteq> ''y''))
         else (axis (nf ! i) \<noteq> ''y'' \<and> (\<forall>j<i. axis (nf ! j) = ''y'')) \<or>
              (i = 0 \<and> (\<forall>f\<in>set nf. axis f = ''y'')))"
  proof (cases "\<bar>deltaX\<bar> > \<bar>deltaY\<bar>")
    case True
    from pick [of "\<lambda>f. axis f = ''y''"] show ?thesis
    proof
      assume "\<exists>i<length nf. find (\<lambda>f. axis f = ''y'') nf = Some (nf ! i) \<and> axis (nf ! i) = ''y''
          \<and> (\<forall>j<i. \<not> axis (nf ! j) = ''y'')"
      then show ?thesis
        using True ne by (auto simp: selectCornerNeighborBySwipeDirection_def)
    next
      assume "find (\<lambda>f. axis f = ''y'') nf = None \<and> (\<forall>f\<in>set nf. \<not> axis f = ''y'')"
      then show ?thesis
        using True ne len hd
        by (intro exI [of _ 0]) (simp add: selectCornerNeighborBySwipeDirection_def)
    qed
  next
    case False
    from pick [of "\<lambda>f. axis f \<noteq> ''y''"] show ?thesis
    proof
      assume "\<exists>i<length nf. find (\<lambda>f. axis f \<noteq> ''y'') nf = Some (nf ! i) \<and> axis (nf ! i) \<noteq> ''y''
          \<and> (\<forall>j<i. \<not> axis (nf ! j) \<noteq> ''y'')"
      then show ?thesis
        using False ne by (auto simp: selectCornerNeighborBySwipeDirection_def)
    next
      assume "find (\<lambda>f. axis f \<noteq> ''y'') nf = None \<and> (\<forall>f\<in>set nf. \<not> axis f \<noteq> ''y'')"
      then show ?thesis
        using False ne len hd
        by (intro exI [of _ 0]) (simp add: selectCornerNeighborBySwipeDirection_def)
    qed
  qed
qed

theorem selectCornerNeighbor_choice_witness:
  "[\<lparr>axis = ''x'', layer = 1\<rparr>, \<lparr>axis = ''y'', layer = 1\<rparr>] \<noteq> [] \<and>
   selectCornerNeighborBySwipeDirection
     (Some [\<lparr>axis = ''x'', layer = 1\<rparr>, \<lparr>axis = ''y'', layer = 1\<rparr>]) 3 1 =
     Some \<lparr>axis = ''y'', layer = 1\<rparr>"
  using selectCornerNeighbor_choice [of 3 1 "[\<lparr>axis = ''x'', layer = 1\<rparr>, \<lparr>axis = ''y'', layer = 1\<rparr>]"]
  by (auto simp: less_Suc_eq numeral_2_eq_2)

section \<open>Geometry of a quarter turn\<close>

lemma planar_back_1:
  fixes u v c s :: real
  assumes "c * c + s * s = 1"
  shows "(u * c - v * s) * c + (u * s + v * c) * s = u"
proof -
  have "(u * c - v * s) * c + (u * s + v * c) * s = u * (c * c + s * s)"
    by (simp add: algebra_simps)
  then show ?thesis using assms by simp
qed

lemma planar_back_2:
  fixes u v c s :: real
  assumes "c * c + s * s = 1"
  shows "(u * s + v * c) * c - (u * c - v * s) * s = v"
proof -
  have "(u * s + v * c) * c - (u * c - v * s) * s = v * (c * c + s * s)"
    by (simp add: algebra_simps)
  then show ?thesis using assms by simp
qed

lemma cos_sin_unit: "cos a * cos a + sin a * sin (a::real) = 1"
  using sin_cos_squared_add3 [of a] by (simp add: add.commute)

lemma rotatePoint_inverse: "rotatePoint ax (- a) (rotatePoint ax a p) = p"
proof -
  note u = cos_sin_unit [of a]
  have x: "(vy p * cos a - vz p * sin a) * cos a + (vy p * sin a + vz p * cos a) * sin a = vy p"
    "(vy p * sin a + vz p * cos a) * cos a - (vy p * cos a - vz p * sin a) * sin a = vz p"
    using planar_back_1 [OF u] planar_back_2 [OF u] by simp_all
  have y: "(vz p * cos a - vx p * sin a) * cos a + (vz p * sin a + vx p * cos a) * sin a = vz p"
    "(vz p * sin a + vx p * cos a) * cos a - (vz p * cos a - vx p * sin a) * sin a = vx p"
    using planar_back_1 [OF u] planar_back_2 [OF u] by simp_all
  have z: "(vx p * cos a - vy p * sin a) * cos a + (vx p * sin a + vy p * cos a) * sin a = vx p"
    "(vx p * sin a + vy p * cos a) * cos a - (vx p * cos a - vy p * sin a) * sin a = vy p"
    using planar_back_1 [OF u] planar_back_2 [OF u] by simp_all
  consider "ax = ''x''" | "ax = ''y''" | "ax = ''z''" | "ax \<noteq> ''x''" "ax \<noteq> ''y''" "ax \<noteq> ''z''"
    by blast
  then show ?thesis
  proof cases
    case 1
    show ?thesis using x by (cases p) (simp add: rotatePoint_def 1)
  next
    case 2
    have "- (vx p * cos a + vz p * sin a) * - sin a + (vz p * cos a - vx p * sin a) * cos a = vz p"
      using y(1) by (simp add: algebra_simps)
    moreover have "(vx p * cos a + vz p * sin a) * cos a + (vz p * cos a - vx p * sin a) * - sin a = vx p"
      using y(2) by (simp add: algebra_simps)
    ultimately show ?thesis by (cases p) (simp add: rotatePoint_def 2 algebra_simps)
  next
    case 3
    show ?thesis using z by (cases p) (simp add: rotatePoint_def 3)
  next
    case 4
    then show ?thesis by (simp add: rotatePoint_def)
  qed
qed

lemma groupQuaternion_inverse:
  "multiplyQuaternions (groupQuaternion ax (- a))
     (multiplyQuaternions (groupQuaternion ax a) q) = q"
proof -
  define c s where "c = cos (a / 2)" and "s = sin (a / 2)"
  have u: "c * c + s * s = 1"
    unfolding c_def s_def by (rule cos_sin_unit)
  have neg: "cos (- a / 2) = c" "sin (- a / 2) = - s"
    by (simp_all add: c_def s_def)
  consider "ax = ''x''" | "ax = ''y''" | "ax = ''z''" | "ax \<noteq> ''x''" "ax \<noteq> ''y''" "ax \<noteq> ''z''"
    by blast
  then show ?thesis
  proof cases
    case 1
    show ?thesis
      by (rule quat.equality;
          simp add: groupQuaternion_def multiplyQuaternions_def 1 neg
            c_def [symmetric] s_def [symmetric]; use u in algebra)
  next
    case 2
    show ?thesis
      by (rule quat.equality;
          simp add: groupQuaternion_def multiplyQuaternions_def 2 neg
            c_def [symmetric] s_def [symmetric]; use u in algebra)
  next
    case 3
    show ?thesis
      by (rule quat.equality;
          simp add: groupQuaternion_def multiplyQuaternions_def 3 neg
            c_def [symmetric] s_def [symmetric]; use u in algebra)
  next
    case 4
    then show ?thesis
      by (cases q) (simp add: groupQuaternion_def multiplyQuaternions_def)
  qed
qed


lemma quarter_turn_cases:
  fixes d :: int
  defines "a \<equiv> of_int d * pi / 2"
  shows "(cos a = 1 \<and> sin a = 0) \<or> (cos a = 0 \<and> sin a = 1) \<or>
         (cos a = - 1 \<and> sin a = 0) \<or> (cos a = 0 \<and> sin a = - 1)"
proof -
  obtain q r where d: "d = 4 * q + r" and r: "r \<in> {0, 1, 2, 3}"
  proof
    show "d = 4 * (d div 4) + d mod 4" by simp
    have "0 \<le> d mod 4" "d mod 4 < 4" by simp_all
    then show "d mod 4 \<in> {0, 1, 2, 3}" by auto
  qed
  have a: "a = of_int r * pi / 2 + 2 * pi * of_int q"
    by (simp add: a_def d field_simps)
  have c: "cos a = cos (of_int r * pi / 2)"
    unfolding a by (simp only: cos_add cos_int_2pin sin_int_2pin mult_1_right mult_zero_right diff_zero)
  have s: "sin a = sin (of_int r * pi / 2)"
    unfolding a by (simp only: sin_add cos_int_2pin sin_int_2pin mult_1_right mult_zero_right add_0_right)
  from r consider "r = 0" | "r = 1" | "r = 2" | "r = 3" by auto
  then show ?thesis
  proof cases
    case 1 then show ?thesis by (simp add: c s)
  next
    case 2 then show ?thesis by (simp add: c s)
  next
    case 3 then show ?thesis by (simp add: c s)
  next
    case 4
    have "of_int r * pi / 2 = 3 / 2 * pi" using 4 by simp
    then have "cos a = 0" "sin a = - 1"
      unfolding c s by (simp_all only: cos_3over2_pi sin_3over2_pi)
    then show ?thesis by simp
  qed
qed

lemma vec3_eq_iff: "(p = \<lparr>vx = a, vy = b, vz = c\<rparr>) = (vx p = a \<and> vy p = b \<and> vz p = c)"
  by (cases p) simp

lemma set_nested3:
  "p \<in> set (concat (map (\<lambda>x. concat (map (\<lambda>y. map (\<lambda>z. f x y z) zs) ys)) xs)) \<longleftrightarrow>
     (\<exists>x\<in>set xs. \<exists>y\<in>set ys. \<exists>z\<in>set zs. p = f x y z)"
  by auto

lemma gridPoints_ex:
  "p \<in> set gridPoints \<longleftrightarrow>
     (\<exists>x\<in>set [- 1, 0, 1 :: int]. \<exists>y\<in>set [- 1, 0, 1 :: int]. \<exists>z\<in>set [- 1, 0, 1 :: int].
        vx p = of_int x * totalSize \<and> vy p = of_int y * totalSize \<and> vz p = of_int z * totalSize)"
  unfolding gridPoints_def set_nested3 vec3_eq_iff ..

lemma coord_grid_iff:
  "(\<exists>x\<in>set [- 1, 0, 1 :: int]. v = of_int x * totalSize) \<longleftrightarrow> v \<in> {- totalSize, 0, totalSize}"
  by auto

lemma gridPoints_iff:
  "p \<in> set gridPoints \<longleftrightarrow>
     vx p \<in> {- totalSize, 0, totalSize} \<and> vy p \<in> {- totalSize, 0, totalSize} \<and>
     vz p \<in> {- totalSize, 0, totalSize}"
  unfolding gridPoints_ex coord_grid_iff [symmetric] by blast

lemma length_gridPoints: "length gridPoints = 27"
  by (simp add: gridPoints_def)

lemma distinct_gridPoints: "distinct gridPoints"
  by (simp add: gridPoints_def totalSize_eq)

lemma snap_grid:
  "v \<in> {- totalSize, 0, totalSize} \<Longrightarrow> of_int (js_round (v / totalSize)) * totalSize = v"
  by (auto simp: js_round_def totalSize_eq)

lemma neg_grid: "v \<in> {- totalSize, 0, totalSize} \<Longrightarrow> - v \<in> {- totalSize, 0, totalSize}"
  by auto

lemma rotatePoint_grid:
  assumes "p \<in> set gridPoints"
  shows "rotatePoint ax (of_int d * pi / 2) p \<in> set gridPoints"
proof -
  from assms have g: "vx p \<in> {- totalSize, 0, totalSize}" "vy p \<in> {- totalSize, 0, totalSize}"
    "vz p \<in> {- totalSize, 0, totalSize}"
    by (simp_all add: gridPoints_iff)
  note n = neg_grid [OF g(1)] neg_grid [OF g(2)] neg_grid [OF g(3)]
  from quarter_turn_cases [of d] show ?thesis
    using g n by (elim disjE conjE) (simp_all add: rotatePoint_def gridPoints_iff)
qed

lemma commitCubie_position_grid:
  assumes "position c \<in> set gridPoints"
  shows "position (commitCubie ax (of_int d * pi / 2) c) = rotatePoint ax (of_int d * pi / 2) (position c)"
proof -
  let ?q = "rotatePoint ax (of_int d * pi / 2) (position c)"
  have "?q \<in> set gridPoints" using assms by (rule rotatePoint_grid)
  then have "vx ?q \<in> {- totalSize, 0, totalSize}" "vy ?q \<in> {- totalSize, 0, totalSize}"
    "vz ?q \<in> {- totalSize, 0, totalSize}"
    by (simp_all add: gridPoints_iff)
  then have "of_int (js_round (vx ?q / totalSize)) * totalSize = vx ?q"
    "of_int (js_round (vy ?q / totalSize)) * totalSize = vy ?q"
    "of_int (js_round (vz ?q / totalSize)) * totalSize = vz ?q"
    by (simp_all only: snap_grid)
  then show ?thesis
    by (simp add: commitCubie_def Let_def)
qed

lemma onFace_rotatePoint: "onFace ax l (rotatePoint ax a p) = onFace ax l p"
  by (simp add: onFace_def rotatePoint_def)

lemma onFace_grid:
  assumes "p \<in> set gridPoints"
  shows "onFace ax l p \<longleftrightarrow> ax \<in> {''x'', ''y'', ''z''} \<and> coordinate ax p = of_int l * totalSize"
proof -
  have k: "\<bar>v - of_int l * totalSize\<bar> < 1 / 10 \<longleftrightarrow> v = of_int l * totalSize"
    if "v \<in> {- totalSize, 0, totalSize}" for v
  proof -
    from that have "\<exists>i\<in>set [- 1, 0, 1 :: int]. v = of_int i * totalSize"
      by (simp only: coord_grid_iff)
    then obtain i :: int where v: "v = of_int i * totalSize"
      by blast
    have "\<bar>of_int i * totalSize - of_int l * totalSize\<bar> < 1 / 10 \<longleftrightarrow> i = l"
    proof
      assume a: "\<bar>of_int i * totalSize - of_int l * totalSize\<bar> < 1 / 10"
      have "of_int i * totalSize - of_int l * totalSize = of_int (i - l) * (21 / 20)"
        by (simp add: totalSize_eq algebra_simps)
      with a have b: "\<bar>real_of_int (i - l)\<bar> * (21 / 20) < 1 / 10"
        by (simp add: abs_mult)
      define x where "x = \<bar>real_of_int (i - l)\<bar>"
      have "x < 1" using b unfolding x_def [symmetric] by linarith
      then have "real_of_int \<bar>i - l\<bar> < 1" unfolding x_def by simp
      then have "\<bar>i - l\<bar> < 1" by linarith
      then show "i = l" by linarith
    next
      assume "i = l" then show "\<bar>of_int i * totalSize - of_int l * totalSize\<bar> < 1 / 10" by simp
    qed
    moreover have "of_int i * totalSize = of_int l * totalSize \<longleftrightarrow> i = l"
      by (simp add: totalSize_eq)
    ultimately show ?thesis by (simp add: v)
  qed
  from assms have g: "vx p \<in> {- totalSize, 0, totalSize}" "vy p \<in> {- totalSize, 0, totalSize}"
    "vz p \<in> {- totalSize, 0, totalSize}"
    by (simp_all add: gridPoints_iff)
  show ?thesis
    using k [OF g(1)] k [OF g(2)] k [OF g(3)]
    by (auto simp: onFace_def coordinate_def)
qed

section \<open>A committed rotation on the cubie list\<close>

lemma commitCubie_fields:
  "quaternion (commitCubie ax a c) = multiplyQuaternions (groupQuaternion ax a) (quaternion c)"
  "parent (commitCubie ax a c) = CubeGroup"
  "materials (commitCubie ax a c) = materials c"
  "logicalPos (commitCubie ax a c) = logicalPos c"
  "cubie.more (commitCubie ax a c) = cubie.more c"
  by (simp_all add: commitCubie_def Let_def)

lemma quarter_neg: "real_of_int (- d) * pi / 2 = - (of_int d * pi / 2)"
  by simp

lemma moved_inverse: "moved ax l (- d) (moved ax l d p) = p"
  by (simp add: moved_def onFace_rotatePoint quarter_neg rotatePoint_inverse del: of_int_minus)

lemma moved_grid: "p \<in> set gridPoints \<Longrightarrow> moved ax l d p \<in> set gridPoints"
  by (simp add: moved_def rotatePoint_grid)

lemma inj_on_moved: "inj_on (moved ax l d) A"
  by (rule inj_on_inverseI [where g = "moved ax l (- d)"]) (rule moved_inverse)

lemma moved_image_grid: "moved ax l d ` set gridPoints = set gridPoints"
  by (rule endo_inj_surj) (auto simp: moved_grid inj_on_moved)

lemma turn_cubie_position:
  assumes "position c \<in> set gridPoints"
  shows "position (if onFace ax l (position c) then commitCubie ax (of_int d * pi / 2) c else c)
    = moved ax l d (position c)"
  using assms by (simp add: moved_def commitCubie_position_grid)

lemma map_position_turn:
  assumes "set (map position cs) \<subseteq> set gridPoints"
  shows "map position (turn ax l d cs) = map (moved ax l d) (map position cs)"
  using assms by (simp add: turn_def turn_cubie_position subset_iff)

lemma onGrid_turn:
  assumes "onGrid cs"
  shows "onGrid (turn ax l d cs)"
proof -
  from assms have d: "distinct (map position cs)" and g: "set (map position cs) = set gridPoints"
    by (simp_all add: onGrid_def)
  have m: "map position (turn ax l d cs) = map (moved ax l d) (map position cs)"
    using g by (intro map_position_turn) simp
  have "distinct (map (moved ax l d) (map position cs))"
    using d by (simp only: distinct_map inj_on_moved simp_thms)
  moreover have "set (map (moved ax l d) (map position cs)) = set gridPoints"
    using g moved_image_grid [of ax l d] by (simp only: set_map)
  ultimately show ?thesis
    unfolding onGrid_def m by simp
qed

lemma parent_turn:
  assumes "\<forall>c\<in>set cs. parent c = CubeGroup"
  shows "\<forall>c\<in>set (turn ax l d cs). parent c = CubeGroup"
  using assms by (auto simp: turn_def commitCubie_fields)

lemma turn_cubie_inverse:
  assumes g: "position c \<in> set gridPoints" and p: "parent c = CubeGroup"
  shows "(let c' = (if onFace ax l (position c) then commitCubie ax (of_int d * pi / 2) c else c)
          in if onFace ax l (position c') then commitCubie ax (of_int (- d) * pi / 2) c' else c') = c"
proof (cases "onFace ax l (position c)")
  case False
  then show ?thesis by simp
next
  case True
  let ?a = "of_int d * pi / 2"
  let ?c' = "commitCubie ax ?a c"
  have pos': "position ?c' = rotatePoint ax ?a (position c)"
    using g by (rule commitCubie_position_grid)
  then have g': "position ?c' \<in> set gridPoints"
    using g by (simp add: rotatePoint_grid)
  have on': "onFace ax l (position ?c')"
    using True by (simp add: pos' onFace_rotatePoint)
  have "position (commitCubie ax (of_int (- d) * pi / 2) ?c')
      = rotatePoint ax (of_int (- d) * pi / 2) (position ?c')"
    using g' by (rule commitCubie_position_grid)
  also have "\<dots> = rotatePoint ax (- ?a) (rotatePoint ax ?a (position c))"
    by (simp only: pos' quarter_neg)
  also have "\<dots> = position c"
    by (rule rotatePoint_inverse)
  finally have pos'': "position (commitCubie ax (of_int (- d) * pi / 2) ?c') = position c" .
  have "commitCubie ax (of_int (- d) * pi / 2) ?c' = c"
  proof (rule cubie.equality)
    show "position (commitCubie ax (of_int (- d) * pi / 2) ?c') = position c"
      by (rule pos'')
    show "quaternion (commitCubie ax (of_int (- d) * pi / 2) ?c') = quaternion c"
      by (simp only: commitCubie_fields quarter_neg groupQuaternion_inverse)
    show "parent (commitCubie ax (of_int (- d) * pi / 2) ?c') = parent c"
      by (simp only: commitCubie_fields p)
  qed (simp_all only: commitCubie_fields)
  then show ?thesis
    using True on' by (simp add: Let_def del: of_int_minus)
qed

lemma turn_inverse:
  assumes "set (map position cs) \<subseteq> set gridPoints" and "\<forall>c\<in>set cs. parent c = CubeGroup"
  shows "turn ax l (- d) (turn ax l d cs) = cs"
proof -
  have "map (\<lambda>c. let c' = (if onFace ax l (position c) then commitCubie ax (of_int d * pi / 2) c else c)
          in if onFace ax l (position c') then commitCubie ax (of_int (- d) * pi / 2) c' else c') cs
        = map (\<lambda>c. c) cs"
    using assms by (intro map_cong refl turn_cubie_inverse) auto
  then show ?thesis
    by (simp add: turn_def Let_def o_def del: of_int_minus)
qed

section \<open>The final frame of a rotation\<close>

lemma commitCubie_reparented: "commitCubie ax a (c\<lparr>parent := RotationGroup\<rparr>) = commitCubie ax a c"
  by (simp add: commitCubie_def Let_def)

lemma commit_marked:
  assumes "\<forall>c\<in>set cs. parent c = CubeGroup"
  shows "map (\<lambda>c. if parent c = RotationGroup then commitCubie ax (of_int d * pi / 2) c else c)
           (map (\<lambda>c. if c \<in> set (filter (\<lambda>c. onFace ax l (position c)) cs)
                      then c\<lparr>parent := RotationGroup\<rparr> else c) cs)
         = turn ax l d cs"
  using assms by (auto simp: turn_def commitCubie_reparented)

lemma complete_running:
  assumes "running s = Some r"
  shows "complete s =
    serveQueue (case callback r of None \<Rightarrow> committed r s | Some cb \<Rightarrow> invoke cb (committed r s))"
  using assms
  by (simp add: complete_def animate_def Let_def duration_def committed_def serveQueue_def
      cong: if_cong option.case_cong)

lemma complete_not_running: "running s = None \<Longrightarrow> complete s = s"
  by (simp add: complete_def animate_def)

lemma animate_early: "elapsed < duration \<Longrightarrow> animate elapsed s = s"
  by (simp add: animate_def Let_def duration_def split: option.splits)

lemma animate_late:
  assumes "duration \<le> elapsed"
  shows "animate elapsed s = complete s"
proof -
  have "min (elapsed / duration) 1 = 1"
    using assms by (simp add: duration_def min_def)
  moreover have "min (duration / duration) 1 = (1::real)"
    by (simp add: duration_def)
  ultimately show ?thesis
    by (simp only: animate_def complete_def)
qed

lemma rotateFace_queue_idle:
  "\<not> isAnimating s \<Longrightarrow> animationQueue (rotateFace ax l d rec cb s) = animationQueue s"
  by (simp add: rotateFace_def Let_def)

lemma executeMove_queue_idle:
  "\<not> isAnimating s \<Longrightarrow> animationQueue (executeMove n rec cb s) = animationQueue s"
  by (simp add: executeMove_def rotateFace_queue_idle split: option.splits)

lemma invoke_queue_idle:
  "\<not> isAnimating s \<Longrightarrow> animationQueue (invoke cb s) = animationQueue s"
  by (cases cb)
    (simp_all add: scrambleDoNextMove_def solveDoNextMove_def executeMove_queue_idle
      rotateFace_queue_idle Let_def)

lemma committed_rotateFace_idle:
  assumes "idle s"
  shows "committed \<lparr>axis = ax, layer = l, direction = d, record_flag = rec, callback = cb\<rparr>
           (rotateFace ax l d rec cb s) =
         s\<lparr>cubies := turn ax l d (cubies s),
           moveHistory := (if rec then moveHistory s @ [\<lparr>axis = ax, layer = l, direction = d\<rparr>]
                           else moveHistory s)\<rparr>"
proof -
  from assms have i: "\<not> isAnimating s" "running s = None" "animationQueue s = []"
    and p: "\<forall>c\<in>set (cubies s). parent c = CubeGroup"
    by (simp_all add: idle_def)
  show ?thesis
    using i commit_marked [OF p, of ax d l]
    by (cases s) (simp add: committed_def rotateFace_def getCubiesOnFace_def Let_def cong: if_cong)
qed

lemma serveQueue_empty: "animationQueue s = [] \<Longrightarrow> serveQueue s = s"
  by (simp add: serveQueue_def)

lemma complete_rotateFace_idle:
  assumes "idle s"
  shows "complete (rotateFace ax l d rec cb s) =
    (case cb of
       None \<Rightarrow> s\<lparr>cubies := turn ax l d (cubies s),
                 moveHistory := (if rec then moveHistory s @ [\<lparr>axis = ax, layer = l, direction = d\<rparr>]
                                 else moveHistory s)\<rparr>
     | Some k \<Rightarrow> invoke k (s\<lparr>cubies := turn ax l d (cubies s),
                 moveHistory := (if rec then moveHistory s @ [\<lparr>axis = ax, layer = l, direction = d\<rparr>]
                                 else moveHistory s)\<rparr>))"
proof -
  let ?r = "\<lparr>axis = ax, layer = l, direction = d, record_flag = rec, callback = cb\<rparr>"
  let ?s' = "s\<lparr>cubies := turn ax l d (cubies s),
                moveHistory := (if rec then moveHistory s @ [\<lparr>axis = ax, layer = l, direction = d\<rparr>]
                                else moveHistory s)\<rparr>"
  from assms have i: "\<not> isAnimating s" "running s = None" "animationQueue s = []"
    and p: "\<forall>c\<in>set (cubies s). parent c = CubeGroup"
    by (simp_all add: idle_def)
  have run: "running (rotateFace ax l d rec cb s) = Some ?r"
    using i by (simp add: rotateFace_def Let_def)
  have c: "committed ?r (rotateFace ax l d rec cb s) = ?s'"
    using assms by (rule committed_rotateFace_idle)
  have idle': "idle ?s'"
    using assms parent_turn [OF p] by (simp add: idle_def)
  then have q: "animationQueue (case cb of None \<Rightarrow> ?s' | Some k \<Rightarrow> invoke k ?s') = []"
    by (simp add: idle_def invoke_queue_idle split: option.splits)
  have "complete (rotateFace ax l d rec cb s)
      = serveQueue (case cb of None \<Rightarrow> ?s' | Some k \<Rightarrow> invoke k ?s')"
    unfolding complete_running [OF run] c by simp
  also have "\<dots> = (case cb of None \<Rightarrow> ?s' | Some k \<Rightarrow> invoke k ?s')"
    using q by (rule serveQueue_empty)
  finally show ?thesis .
qed

section \<open>Playing moves and reversing them\<close>

lemma move_eta: "\<lparr>axis = axis m, layer = layer m, direction = direction m\<rparr> = (m::move)"
  by (cases m) simp

lemma idle_turned:
  assumes "idle s"
  shows "idle (s\<lparr>cubies := turn ax l d (cubies s), moveHistory := h\<rparr>)"
    and "idle (s\<lparr>cubies := turn ax l d (cubies s)\<rparr>)"
  using assms parent_turn [of "cubies s" ax l d] by (simp_all add: idle_def)

lemma play_idle:
  assumes "idle s"
  shows "play m s = s\<lparr>cubies := applyMove m (cubies s), moveHistory := moveHistory s @ [m]\<rparr>"
  by (simp add: play_def complete_rotateFace_idle [OF assms] applyMove_def move_eta)

lemma fold_play:
  assumes "idle s"
  shows "fold play ms s =
           s\<lparr>cubies := fold applyMove ms (cubies s), moveHistory := moveHistory s @ ms\<rparr>
         \<and> idle (fold play ms s)"
  using assms
proof (induction ms arbitrary: s)
  case Nil
  then show ?case by simp
next
  case (Cons m ms)
  let ?s = "s\<lparr>cubies := applyMove m (cubies s), moveHistory := moveHistory s @ [m]\<rparr>"
  have p: "play m s = ?s" using Cons.prems by (rule play_idle)
  have i: "idle ?s" unfolding applyMove_def using Cons.prems by (rule idle_turned)
  note ih = Cons.IH [OF i]
  have e: "fold play ms ?s =
      ?s\<lparr>cubies := fold applyMove ms (cubies ?s), moveHistory := moveHistory ?s @ ms\<rparr>"
    using ih by (rule conjunct1)
  have j: "idle (fold play ms ?s)"
    using ih by (rule conjunct2)
  have "fold play (m # ms) s = fold play ms ?s"
    by (simp add: p)
  moreover have "?s\<lparr>cubies := fold applyMove ms (cubies ?s), moveHistory := moveHistory ?s @ ms\<rparr>
      = s\<lparr>cubies := fold applyMove (m # ms) (cubies s), moveHistory := moveHistory s @ m # ms\<rparr>"
    by simp
  ultimately show ?case
    using e j by (simp only:)
qed

lemma solve_step:
  assumes "idle s" and "i < length ms"
  shows "complete (solveDoNextMove ms i oc s) =
           solveDoNextMove ms (Suc i) oc (s\<lparr>cubies := undoMove (ms ! i) (cubies s)\<rparr>)"
  using assms(2)
  by (simp add: solveDoNextMove_def [of ms i] Let_def complete_rotateFace_idle [OF assms(1)]
      undoMove_def)

lemma solve_chain:
  assumes "idle s" and "i \<le> length ms"
  shows "(complete ^^ (length ms - i)) (solveDoNextMove ms i oc s) =
           s\<lparr>cubies := fold undoMove (drop i ms) (cubies s),
             notified := notified s @ (if oc then [SolveComplete False] else [])\<rparr>"
  using assms
proof (induction "length ms - i" arbitrary: i s)
  case 0
  then have "i = length ms" by simp
  then show ?case by (simp add: solveDoNextMove_def)
next
  case (Suc k)
  then have lt: "i < length ms" and k: "k = length ms - Suc i" by simp_all
  let ?s = "s\<lparr>cubies := undoMove (ms ! i) (cubies s)\<rparr>"
  have i: "idle ?s" unfolding undoMove_def using Suc.prems(1) by (rule idle_turned)
  have "(complete ^^ (length ms - i)) (solveDoNextMove ms i oc s)
      = (complete ^^ k) (complete (solveDoNextMove ms i oc s))"
    using Suc.hyps(2) [symmetric] by (simp add: funpow_swap1)
  also have "\<dots> = (complete ^^ (length ms - Suc i)) (solveDoNextMove ms (Suc i) oc ?s)"
    by (simp only: solve_step [OF Suc.prems(1) lt] k)
  also have "\<dots> = ?s\<lparr>cubies := fold undoMove (drop (Suc i) ms) (cubies ?s),
             notified := notified ?s @ (if oc then [SolveComplete False] else [])\<rparr>"
    using lt by (intro Suc.hyps(1) [OF k i]) simp
  also have "\<dots> = s\<lparr>cubies := fold undoMove (drop i ms) (cubies s),
             notified := notified s @ (if oc then [SolveComplete False] else [])\<rparr>"
    using lt by (simp add: Cons_nth_drop_Suc [symmetric])
  finally show ?case .
qed

lemma solve_commits:
  assumes "idle s" and "i \<le> length ms"
  shows "map requestedMove (commits (length ms - i) (solveDoNextMove ms i oc s)) = map negated (drop i ms)
         \<and> (\<forall>r\<in>set (commits (length ms - i) (solveDoNextMove ms i oc s)). \<not> record_flag r)"
  using assms
proof (induction "length ms - i" arbitrary: i s)
  case 0
  then show ?case by simp
next
  case (Suc k)
  then have lt: "i < length ms" and k: "k = length ms - Suc i" by simp_all
  let ?s = "s\<lparr>cubies := undoMove (ms ! i) (cubies s)\<rparr>"
  let ?r = "\<lparr>axis = axis (ms ! i), layer = layer (ms ! i), direction = - direction (ms ! i),
              record_flag = False, callback = Some (SolveNext ms i oc)\<rparr>"
  have i: "idle ?s" unfolding undoMove_def using Suc.prems(1) by (rule idle_turned)
  have run: "running (solveDoNextMove ms i oc s) = Some ?r"
    using lt Suc.prems(1) by (simp add: solveDoNextMove_def rotateFace_def idle_def Let_def)
  have c: "commits (length ms - i) (solveDoNextMove ms i oc s)
      = ?r # commits (length ms - Suc i) (solveDoNextMove ms (Suc i) oc ?s)"
    using Suc.hyps(2) [symmetric] run by (simp add: solve_step [OF Suc.prems(1) lt] k)
  have d: "drop i ms = ms ! i # drop (Suc i) ms"
    using lt by (simp add: Cons_nth_drop_Suc)
  from Suc.hyps(1) [OF k i] lt show ?case
    unfolding c d by (simp add: requestedMove_def negated_def)
qed

lemma undo_apply:
  assumes "onGrid cs" and "\<forall>c\<in>set cs. parent c = CubeGroup"
  shows "undoMove m (applyMove m cs) = cs"
  using assms by (simp add: undoMove_def applyMove_def onGrid_def turn_inverse)

lemma undo_all:
  assumes "onGrid cs" and "\<forall>c\<in>set cs. parent c = CubeGroup"
  shows "fold undoMove (rev ms) (fold applyMove ms cs) = cs"
  using assms
proof (induction ms arbitrary: cs)
  case Nil
  then show ?case by simp
next
  case (Cons m ms)
  have g: "onGrid (applyMove m cs)" "\<forall>c\<in>set (applyMove m cs). parent c = CubeGroup"
    unfolding applyMove_def using Cons.prems by (simp_all add: onGrid_turn parent_turn)
  have "fold undoMove (rev (m # ms)) (fold applyMove (m # ms) cs)
      = undoMove m (fold undoMove (rev ms) (fold applyMove ms (applyMove m cs)))"
    by simp
  also have "\<dots> = undoMove m (applyMove m cs)"
    by (simp only: Cons.IH [OF g])
  also have "\<dots> = cs"
    using Cons.prems by (rule undo_apply)
  finally show ?case .
qed

section \<open>Scramble and solve run to their end\<close>

lemma moveNames_eq: "moveNames = [''R'', ''L'', ''U'', ''D'', ''F'', ''B'']"
  by (simp add: moveNames_def MOVES_def apostrophe_def)

lemma moveNames_known:
  assumes "n \<in> set moveNames"
  shows "map_of MOVES n \<noteq> None" and "map_of MOVES (n @ apostrophe) \<noteq> None"
  using assms by (auto simp: moveNames_eq MOVES_def apostrophe_def)

lemma scrambleMoves_known:
  assumes "\<forall>k. 0 \<le> random k \<and> random k < 1"
  shows "\<forall>n\<in>set (scrambleMoves random). map_of MOVES n \<noteq> None"
proof
  fix n assume "n \<in> set (scrambleMoves random)"
  then obtain i where n: "n = (let k = \<lfloor>random (2 * i) * real (length moveNames)\<rfloor>;
           randomMove = (if 0 \<le> k \<and> k < int (length moveNames)
                         then moveNames ! nat k else ''undefined'')
       in if random (2 * i + 1) > 1 / 2 then randomMove @ apostrophe else randomMove)"
    by (auto simp: scrambleMoves_def)
  have r: "0 \<le> random (2 * i)" "random (2 * i) < 1" using assms by simp_all
  have len: "length moveNames = 6" by (simp add: moveNames_eq)
  have "0 \<le> random (2 * i) * 6" "random (2 * i) * 6 < 6" using r by simp_all
  then have k: "0 \<le> \<lfloor>random (2 * i) * 6\<rfloor>" "\<lfloor>random (2 * i) * 6\<rfloor> < 6"
    by (simp_all add: floor_less_iff)
  then have "nat \<lfloor>random (2 * i) * 6\<rfloor> < 6" by linarith
  then have "moveNames ! nat \<lfloor>random (2 * i) * 6\<rfloor> \<in> set moveNames"
    by (intro nth_mem) (simp add: len)
  from moveNames_known [OF this] k show "map_of MOVES n \<noteq> None"
    unfolding n Let_def len by simp
qed

lemma length_scrambleMoves: "length (scrambleMoves random) = 20"
  by (simp add: scrambleMoves_def)

lemma known_moves:
  assumes "\<forall>n\<in>set ns. f n \<noteq> None"
  shows "\<exists>ms. map f ns = map Some ms"
  using assms
proof (induction ns)
  case Nil
  then show ?case by simp
next
  case (Cons n ns)
  then obtain ms where "map f ns = map Some ms" by auto
  moreover from Cons.prems obtain m where "f n = Some m" by auto
  ultimately have "map f (n # ns) = map Some (m # ms)" by simp
  then show ?case by blast
qed

lemma scramble_step:
  assumes "idle s" and "i < length ns" and "map_of MOVES (ns ! i) = Some m"
  shows "complete (scrambleDoNextMove ns i oc s) =
           scrambleDoNextMove ns (Suc i) oc
             (s\<lparr>cubies := applyMove m (cubies s), moveHistory := moveHistory s @ [m]\<rparr>)"
  using assms(2,3)
  by (simp add: scrambleDoNextMove_def [of ns i] executeMove_def
      complete_rotateFace_idle [OF assms(1)] applyMove_def move_eta)

lemma scramble_chain:
  assumes "idle s" and "i \<le> length ns" and "map (map_of MOVES) ns = map Some ms"
  shows "(complete ^^ (length ns - i)) (scrambleDoNextMove ns i oc s) =
           s\<lparr>cubies := fold applyMove (drop i ms) (cubies s),
             moveHistory := moveHistory s @ drop i ms,
             notified := notified s @ (if oc then [ScrambleComplete] else [])\<rparr>"
  using assms(1,2)
proof (induction "length ns - i" arbitrary: i s)
  case 0
  then have "i = length ns" by simp
  moreover have "length ms = length ns"
    using assms(3) by (metis length_map)
  ultimately show ?case by (simp add: scrambleDoNextMove_def)
next
  case (Suc k)
  then have lt: "i < length ns" and k: "k = length ns - Suc i" by simp_all
  have len: "length ms = length ns"
    using assms(3) by (metis length_map)
  have "map (map_of MOVES) ns ! i = map Some ms ! i"
    using assms(3) by simp
  then have m: "map_of MOVES (ns ! i) = Some (ms ! i)"
    using lt len by simp
  let ?s = "s\<lparr>cubies := applyMove (ms ! i) (cubies s), moveHistory := moveHistory s @ [ms ! i]\<rparr>"
  have i: "idle ?s" unfolding applyMove_def using Suc.prems(1) by (rule idle_turned)
  have "(complete ^^ (length ns - i)) (scrambleDoNextMove ns i oc s)
      = (complete ^^ k) (complete (scrambleDoNextMove ns i oc s))"
    using Suc.hyps(2) [symmetric] by (simp add: funpow_swap1)
  also have "\<dots> = (complete ^^ (length ns - Suc i)) (scrambleDoNextMove ns (Suc i) oc ?s)"
    by (simp only: scramble_step [OF Suc.prems(1) lt m] k)
  also have "\<dots> = ?s\<lparr>cubies := fold applyMove (drop (Suc i) ms) (cubies ?s),
             moveHistory := moveHistory ?s @ drop (Suc i) ms,
             notified := notified ?s @ (if oc then [ScrambleComplete] else [])\<rparr>"
    using lt by (intro Suc.hyps(1) [OF k i]) simp
  also have "\<dots> = s\<lparr>cubies := fold applyMove (drop i ms) (cubies s),
             moveHistory := moveHistory s @ drop i ms,
             notified := notified s @ (if oc then [ScrambleComplete] else [])\<rparr>"
    using lt len by (simp add: Cons_nth_drop_Suc [symmetric])
  finally show ?case .
qed

lemma scramble_run:
  assumes "idle s" and "\<forall>k. 0 \<le> random k \<and> random k < 1"
  shows "\<exists>ms. length ms = 20 \<and>
           (complete ^^ 20) (scramble random oc s) =
             (fold play ms s)\<lparr>notified := notified s @ (if oc then [ScrambleComplete] else [])\<rparr>"
proof -
  from known_moves [OF scrambleMoves_known [OF assms(2)]]
  obtain ms where ms: "map (map_of MOVES) (scrambleMoves random) = map Some ms" ..
  then have len: "length ms = 20"
    using length_scrambleMoves [of random] by (metis length_map)
  have "scramble random oc s = scrambleDoNextMove (scrambleMoves random) 0 oc s"
    using assms(1) by (simp add: scramble_def idle_def)
  then have "(complete ^^ 20) (scramble random oc s)
      = (complete ^^ (length (scrambleMoves random) - 0)) (scrambleDoNextMove (scrambleMoves random) 0 oc s)"
    by (simp add: length_scrambleMoves)
  also have "\<dots> = s\<lparr>cubies := fold applyMove (drop 0 ms) (cubies s),
             moveHistory := moveHistory s @ drop 0 ms,
             notified := notified s @ (if oc then [ScrambleComplete] else [])\<rparr>"
    using assms(1) _ ms by (rule scramble_chain) simp
  also have "\<dots> = (fold play ms s)\<lparr>notified := notified s @ (if oc then [ScrambleComplete] else [])\<rparr>"
    using fold_play [OF assms(1), of ms] by simp
  finally show ?thesis using len by blast
qed

lemma solve_run:
  assumes "idle s"
  shows "(complete ^^ length (moveHistory s)) (solve oc s) =
           s\<lparr>cubies := fold undoMove (rev (moveHistory s)) (cubies s),
             moveHistory := [],
             notified := notified s @ (if oc then [SolveComplete (moveHistory s = [])] else [])\<rparr>"
proof (cases "moveHistory s = []")
  case True
  then show ?thesis using assms by (simp add: solve_def idle_def)
next
  case False
  let ?s = "s\<lparr>moveHistory := []\<rparr>"
  have i: "idle ?s" using assms by (simp add: idle_def)
  have "solve oc s = solveDoNextMove (rev (moveHistory s)) 0 oc ?s"
    using assms False by (simp add: solve_def idle_def Let_def)
  then have "(complete ^^ length (moveHistory s)) (solve oc s)
      = (complete ^^ (length (rev (moveHistory s)) - 0)) (solveDoNextMove (rev (moveHistory s)) 0 oc ?s)"
    by simp
  also have "\<dots> = ?s\<lparr>cubies := fold undoMove (drop 0 (rev (moveHistory s))) (cubies ?s),
             notified := notified ?s @ (if oc then [SolveComplete False] else [])\<rparr>"
    using i by (rule solve_chain) simp
  finally show ?thesis using False by simp
qed

lemma upto_3: "[- 1 .. 1 :: int] = [- 1, 0, 1]"
  by (simp add: upto.simps)

lemma positions_solved: "map position solved = gridPoints"
  by (simp add: solved_def initCube_def newCube_def gridPoints_def createCubie_def upto_3)

lemma onGrid_solved: "onGrid solved"
  by (simp add: onGrid_def positions_solved distinct_gridPoints)

lemma parent_solved: "\<forall>c\<in>set solved. parent c = CubeGroup"
  unfolding solved_def initCube_def newCube_def
  by (simp only: rubiks_cube.simps set_nested3) auto

lemma idle_init: "idle (initCube newCube)"
  using parent_solved by (simp add: idle_def solved_def) (simp add: initCube_def newCube_def)

section \<open>Every reachable state is well formed\<close>

lemma isAnimating_rotateFace: "isAnimating (rotateFace ax l d rec cb s)"
  by (simp add: rotateFace_def Let_def)

lemma onGrid_marked:
  "onGrid (map (\<lambda>c. if P c then c\<lparr>parent := RotationGroup\<rparr> else c) cs) = onGrid cs"
proof -
  have "map position (map (\<lambda>c. if P c then c\<lparr>parent := RotationGroup\<rparr> else c) cs) = map position cs"
    by (induction cs) simp_all
  then show ?thesis by (simp only: onGrid_def)
qed

lemma wellFormed_rotateFace:
  assumes "wellFormed s"
  shows "wellFormed (rotateFace ax l d rec cb s)"
proof (cases "isAnimating s")
  case True
  then show ?thesis using assms by (simp add: rotateFace_def wellFormed_def)
next
  case False
  with assms have r: "running s = None" and p: "\<forall>c\<in>set (cubies s). parent c = CubeGroup"
    and g: "onGrid (cubies s)"
    by (auto simp: wellFormed_def)
  show ?thesis
    using False p g
    by (auto simp: rotateFace_def wellFormed_def Let_def getCubiesOnFace_def onGrid_marked)
qed

lemma wellFormed_executeMove: "wellFormed s \<Longrightarrow> wellFormed (executeMove n rec cb s)"
  by (simp add: executeMove_def wellFormed_rotateFace split: option.splits)

lemma wellFormed_notified: "wellFormed (s\<lparr>notified := x\<rparr>) = wellFormed s"
  by (simp add: wellFormed_def)

lemma wellFormed_scrambleDoNextMove:
  "wellFormed s \<Longrightarrow> wellFormed (scrambleDoNextMove ns i oc s)"
  by (simp add: scrambleDoNextMove_def wellFormed_executeMove wellFormed_notified)

lemma wellFormed_solveDoNextMove:
  "wellFormed s \<Longrightarrow> wellFormed (solveDoNextMove ms i oc s)"
  by (simp add: solveDoNextMove_def wellFormed_rotateFace wellFormed_notified Let_def)

lemma wellFormed_invoke: "wellFormed s \<Longrightarrow> wellFormed (invoke cb s)"
  by (cases cb) (simp_all add: wellFormed_scrambleDoNextMove wellFormed_solveDoNextMove)

lemma cubies_committed:
  assumes "wellFormed s" and "running s = Some r"
  shows "cubies (committed r s) = turn (axis r) (layer r) (direction r) (cubies s)"
proof -
  from assms have "\<forall>c\<in>set (cubies s). (parent c = RotationGroup) = onFace (axis r) (layer r) (position c)"
    by (simp add: wellFormed_def)
  then have "map (\<lambda>cubie. if parent cubie = RotationGroup
                 then commitCubie (axis r) (of_int (direction r) * pi / 2) cubie
                 else cubie) (cubies s) = turn (axis r) (layer r) (direction r) (cubies s)"
    unfolding turn_def by (intro map_cong refl) simp
  then show ?thesis
    by (simp add: committed_def Let_def)
qed

lemma committed_fields:
  "\<not> isAnimating (committed r s)" "running (committed r s) = None"
  "animationQueue (committed r s) = animationQueue s"
  "notified (committed r s) = notified s"
  "moveHistory (committed r s) =
     (if record_flag r then moveHistory s @ [requestedMove r] else moveHistory s)"
  by (simp_all add: committed_def Let_def requestedMove_def)

lemma wellFormed_committed:
  assumes "wellFormed s" and "running s = Some r"
  shows "wellFormed (committed r s)"
proof -
  have c: "cubies (committed r s) = turn (axis r) (layer r) (direction r) (cubies s)"
    using assms by (rule cubies_committed)
  from assms have g: "onGrid (cubies s)"
    and p: "\<forall>c\<in>set (cubies s). \<not> onFace (axis r) (layer r) (position c) \<longrightarrow> parent c = CubeGroup"
    by (simp_all add: wellFormed_def)
  have "\<forall>c\<in>set (turn (axis r) (layer r) (direction r) (cubies s)). parent c = CubeGroup"
    using p by (auto simp: turn_def commitCubie_fields)
  then show ?thesis
    using onGrid_turn [OF g] by (simp add: wellFormed_def c committed_fields)
qed

lemma invariant_serveQueue:
  assumes "wellFormed s"
  shows "invariant (serveQueue s)"
proof (cases "animationQueue s = []")
  case True
  then show ?thesis using assms by (simp add: serveQueue_def invariant_def)
next
  case False
  have "wellFormed (s\<lparr>animationQueue := tl (animationQueue s)\<rparr>)"
    using assms by (simp add: wellFormed_def)
  then show ?thesis
    using False
    by (simp add: serveQueue_def invariant_def Let_def wellFormed_rotateFace isAnimating_rotateFace)
qed

lemma invariant_complete:
  assumes "invariant s"
  shows "invariant (complete s)"
proof (cases "running s")
  case None
  then show ?thesis using assms by (simp add: complete_not_running)
next
  case (Some r)
  from assms have w: "wellFormed s" by (simp add: invariant_def)
  have "wellFormed (committed r s)" using w Some by (rule wellFormed_committed)
  then have "wellFormed (case callback r of None \<Rightarrow> committed r s
      | Some cb \<Rightarrow> invoke cb (committed r s))"
    by (simp add: wellFormed_invoke split: option.splits)
  then show ?thesis
    unfolding complete_running [OF Some] by (rule invariant_serveQueue)
qed

lemma invariant_animate: "invariant s \<Longrightarrow> invariant (animate elapsed s)"
  by (cases "elapsed < duration") (simp_all add: animate_early animate_late invariant_complete)

lemma invariant_rotateFace: "invariant s \<Longrightarrow> invariant (rotateFace ax l d rec cb s)"
  by (simp add: invariant_def wellFormed_rotateFace isAnimating_rotateFace)

lemma invariant_executeMove: "invariant s \<Longrightarrow> invariant (executeMove n rec cb s)"
  by (simp add: executeMove_def invariant_rotateFace split: option.splits)

lemma invariant_notified: "invariant (s\<lparr>notified := x\<rparr>) = invariant s"
  by (simp add: invariant_def wellFormed_def)

lemma invariant_scramble: "invariant s \<Longrightarrow> invariant (scramble random oc s)"
  by (simp add: scramble_def scrambleDoNextMove_def invariant_executeMove invariant_notified)

lemma invariant_solve: "invariant s \<Longrightarrow> invariant (solve oc s)"
proof -
  assume i: "invariant s"
  then have "invariant (s\<lparr>moveHistory := []\<rparr>)"
    by (simp add: invariant_def wellFormed_def)
  then show ?thesis
    using i by (simp add: solve_def solveDoNextMove_def Let_def invariant_rotateFace invariant_notified)
qed

lemma cubies_initCube: "cubies (initCube s) = solved"
  by (simp add: solved_def initCube_def)

lemma invariant_init: "invariant (initCube newCube)"
  using onGrid_solved parent_solved
  by (simp add: invariant_def wellFormed_def cubies_initCube) (simp add: initCube_def newCube_def)

lemma invariant_reset: "invariant s \<Longrightarrow> invariant (reset s)"
proof -
  assume i: "invariant s"
  show ?thesis
  proof (cases "isAnimating s \<or> length (animationQueue s) > 0")
    case True
    then show ?thesis using i by (simp add: reset_def)
  next
    case False
    with i have "running s = None" by (simp add: invariant_def wellFormed_def)
    then have "invariant (initCube s)"
      using False onGrid_solved parent_solved
      by (simp add: invariant_def wellFormed_def cubies_initCube) (simp add: initCube_def)
    then show ?thesis using False by (simp add: reset_def)
  qed
qed

lemma invariant_recordMove: "invariant s \<Longrightarrow> invariant (recordMove ax l d s)"
  by (simp add: recordMove_def invariant_def wellFormed_def)

lemma reachable_invariant: "reachable s \<Longrightarrow> invariant s"
  by (induction rule: reachable.induct)
    (simp_all add: invariant_init invariant_rotateFace invariant_executeMove invariant_animate
      invariant_scramble invariant_solve invariant_reset invariant_recordMove)

lemma reachable_idle:
  assumes "reachable s" and "\<not> isAnimating s"
  shows "idle s" and "onGrid (cubies s)"
  using reachable_invariant [OF assms(1)] assms(2)
  by (auto simp: invariant_def wellFormed_def idle_def)

section \<open>Snapping a swipe to quarter turns\<close>

lemma smod_pos: "0 \<le> q \<Longrightarrow> q smod 4 = q mod 4" for q :: int
  by (simp add: signed_modulo_int_def sgn_if)

lemma js_rem_norm: "js_rem (js_rem q 4 + 4) 4 = q mod 4"
proof (cases "0 \<le> q")
  case True
  have "0 \<le> q mod 4" by simp
  then have "0 \<le> q mod 4 + 4" by linarith
  then have "(q mod 4 + 4) smod 4 = (q mod 4 + 4) mod 4" by (rule smod_pos)
  also have "\<dots> = q mod 4" by simp
  finally show ?thesis by (simp add: js_rem_def smod_pos [OF True])
next
  case False
  define t where "t = (- q) mod 4"
  have t: "0 \<le> t" "t < 4" by (simp_all add: t_def)
  have q: "q smod 4 = - t"
    using False by (simp add: signed_modulo_int_def sgn_if t_def)
  have "0 \<le> - t + 4" using t by linarith
  then have "(- t + 4) smod 4 = (- t + 4) mod 4" by (rule smod_pos)
  also have "\<dots> = (- t) mod 4" by simp
  also have "\<dots> = (- (- q)) mod 4" unfolding t_def by (simp only: mod_minus_eq)
  also have "\<dots> = q mod 4" by simp
  finally show ?thesis by (simp add: js_rem_def q)
qed

lemma snap_examples:
  "js_round ((40 * pi / 180) / (pi / 2)) = 0"
  "js_round ((50 * pi / 180) / (pi / 2)) = 1"
  "js_round ((185 * pi / 180) / (pi / 2)) = 2"
  "js_round ((- 100 * pi / 180) / (pi / 2)) = - 1"
  by (simp_all add: js_round_def)

lemma js_round_nearest: "\<bar>of_int (js_round x) - x\<bar> \<le> 1 / 2"
  unfolding js_round_def by linarith

lemma snap_nearest:
  "\<bar>of_int (js_round (a / (pi / 2))) * (pi / 2) - a\<bar> \<le> pi / 4"
proof -
  have "\<bar>of_int (js_round (a / (pi / 2))) - a / (pi / 2)\<bar> \<le> 1 / 2"
    by (rule js_round_nearest)
  then have "\<bar>of_int (js_round (a / (pi / 2))) - a / (pi / 2)\<bar> * (pi / 2) \<le> 1 / 2 * (pi / 2)"
    by (intro mult_right_mono) simp_all
  moreover have "\<bar>of_int (js_round (a / (pi / 2))) - a / (pi / 2)\<bar> * (pi / 2)
      = \<bar>of_int (js_round (a / (pi / 2))) * (pi / 2) - a\<bar>"
  proof -
    have "\<bar>of_int (js_round (a / (pi / 2))) - a / (pi / 2)\<bar> * (pi / 2)
        = \<bar>(of_int (js_round (a / (pi / 2))) - a / (pi / 2)) * (pi / 2)\<bar>"
      by (simp add: abs_mult)
    also have "(of_int (js_round (a / (pi / 2))) - a / (pi / 2)) * (pi / 2)
        = of_int (js_round (a / (pi / 2))) * (pi / 2) - a"
      by (simp add: algebra_simps)
    finally show ?thesis .
  qed
  ultimately have "\<bar>of_int (js_round (a / (pi / 2))) * (pi / 2) - a\<bar> \<le> 1 / 2 * (pi / 2)"
    by (simp only:)
  then show ?thesis by simp
qed

lemma js_round_of_int_quarter: "js_round (of_int k * (pi / 2) / (pi / 2)) = k"
  by (simp add: js_round_def)

lemma finalize_swipe:
  assumes "rotationGroup ts" and "swipe ts = Some f"
  shows "finalizeFaceRotation (of_int k * (pi / 2)) (ts, s) =
     (ts\<lparr>rotationGroup := False, swipe := None, currentRotation := 0\<rparr>,
      s\<lparr>cubies := map (\<lambda>cubie. if parent cubie = RotationGroup
                                 then commitCubie (axis f) (of_int k * (pi / 2)) cubie
                                 else cubie) (cubies s),
        moveHistory := moveHistory s @
          (if k mod 4 = 1 then [\<lparr>axis = axis f, layer = layer f, direction = 1\<rparr>]
           else if k mod 4 = 3 then [\<lparr>axis = axis f, layer = layer f, direction = - 1\<rparr>]
           else if k mod 4 = 2 then [\<lparr>axis = axis f, layer = layer f, direction = 1\<rparr>,
                                      \<lparr>axis = axis f, layer = layer f, direction = 1\<rparr>]
           else [])\<rparr>)"
  using assms
  by (simp only: finalizeFaceRotation_def prod.case option.case Let_def js_rem_norm
      js_round_of_int_quarter simp_thms if_False)

lemma finalize_ignores_rotation:
  assumes "rotationGroup ts" and "swipe ts = Some f"
  shows "finalizeFaceRotation a (ts\<lparr>currentRotation := x\<rparr>, s) = finalizeFaceRotation a (ts, s)"
  using assms by (simp add: finalizeFaceRotation_def Let_def)

lemma complete_swipe:
  assumes "rotationGroup ts" and "swipe ts = Some f"
  shows "completeFaceRotation (ts, s) =
           finalizeFaceRotation (of_int (js_round (currentRotation ts / (pi / 2))) * (pi / 2)) (ts, s)"
  using assms by (simp add: completeFaceRotation_def Let_def finalize_ignores_rotation [OF assms])

section \<open>History reversal\<close>

lemma solve_run_commits:
  assumes "idle s"
  shows "map requestedMove (commits (length (moveHistory s)) (solve oc s))
           = map negated (rev (moveHistory s))
         \<and> (\<forall>r\<in>set (commits (length (moveHistory s)) (solve oc s)). \<not> record_flag r)"
proof (cases "moveHistory s = []")
  case True
  then show ?thesis by simp
next
  case False
  let ?s = "s\<lparr>moveHistory := []\<rparr>"
  have i: "idle ?s" using assms by (simp add: idle_def)
  have e: "solve oc s = solveDoNextMove (rev (moveHistory s)) 0 oc ?s"
    using assms False by (simp add: solve_def idle_def Let_def)
  from solve_commits [OF i, of 0 "rev (moveHistory s)" oc] show ?thesis
    by (simp add: e)
qed

lemma history_played:
  "moveHistory (fold play ms (initCube newCube)) = ms"
  using fold_play [OF idle_init, of ms] by (simp add: initCube_def)

lemma cubies_played:
  "cubies (fold play ms (initCube newCube)) = fold applyMove ms solved"
  using fold_play [OF idle_init, of ms] by (simp add: cubies_initCube)

lemma idle_played: "idle (fold play ms (initCube newCube))"
  using fold_play [OF idle_init, of ms] by (rule conjunct2)

lemma solve_after_play:
  assumes "idle s" and "cubies s = fold applyMove (moveHistory s) solved"
  shows "cubies ((complete ^^ length (moveHistory s)) (solve oc s)) = solved"
  by (simp add: solve_run [OF assms(1)] assms(2) undo_all [OF onGrid_solved parent_solved])

text \<open>
  C1. Play any moves \<open>ms\<close> on a freshly initialised cube, each to its end and recorded.
  The history is then \<open>ms\<close>; \<open>solve\<close> commits, one after the other, the moves of
  the history in reverse order with the direction negated, none of them recorded, and after
  as many final frames as there were moves every cubie is back in its solved place and
  orientation. The same holds when \<open>scramble\<close> has then added its 20 moves, whatever
  values \<open>Math.random\<close> returned for them.
\<close>

theorem solve_returns_to_solved:
  assumes "\<forall>k. 0 \<le> random k \<and> random k < 1"
  shows "(let s1 = fold play ms (initCube newCube);
              n = length ms
          in moveHistory s1 = ms \<and>
             map requestedMove (commits n (solve oc s1)) = map negated (rev ms) \<and>
             (\<forall>r\<in>set (commits n (solve oc s1)). \<not> record_flag r) \<and>
             cubies ((complete ^^ n) (solve oc s1)) = solved) \<and>
         (let s1 = (complete ^^ 20) (scramble random oc' (fold play ms (initCube newCube)));
              n = length (moveHistory s1)
          in n = length ms + 20 \<and>
             cubies ((complete ^^ n) (solve oc s1)) = solved)"
proof -
  let ?s1 = "fold play ms (initCube newCube)"
  have h: "moveHistory ?s1 = ms" by (rule history_played)
  have i: "idle ?s1" by (rule idle_played)
  have c: "cubies ?s1 = fold applyMove (moveHistory ?s1) solved"
    by (simp only: h cubies_played)
  have a: "map requestedMove (commits (length ms) (solve oc ?s1)) = map negated (rev ms)"
    "\<forall>r\<in>set (commits (length ms) (solve oc ?s1)). \<not> record_flag r"
    using solve_run_commits [OF i, of oc] by (simp_all add: h)
  have b: "cubies ((complete ^^ length ms) (solve oc ?s1)) = solved"
    using solve_after_play [OF i c, of oc] by (simp only: h)
  from scramble_run [OF i assms, of oc'] obtain sm where len: "length sm = 20"
    and t: "(complete ^^ 20) (scramble random oc' ?s1) =
      (fold play sm ?s1)\<lparr>notified := notified ?s1 @ (if oc' then [ScrambleComplete] else [])\<rparr>"
    by blast
  let ?t1 = "(complete ^^ 20) (scramble random oc' ?s1)"
  have hp: "moveHistory (fold play sm ?s1) = ms @ sm"
    using history_played [of "ms @ sm"] by simp
  have ip: "idle (fold play sm ?s1)"
    using idle_played [of "ms @ sm"] by simp
  have cp: "cubies (fold play sm ?s1) = fold applyMove (ms @ sm) solved"
    using cubies_played [of "ms @ sm"] by simp
  have th: "moveHistory ?t1 = ms @ sm"
    unfolding t using hp by simp
  have ti: "idle ?t1"
    unfolding t using ip by (simp add: idle_def)
  have tc: "cubies ?t1 = fold applyMove (moveHistory ?t1) solved"
    unfolding th unfolding t using cp by simp
  have d: "cubies ((complete ^^ length (moveHistory ?t1)) (solve oc ?t1)) = solved"
    using ti tc by (rule solve_after_play)
  have e: "length (moveHistory ?t1) = length ms + 20"
    by (simp add: th len)
  show ?thesis
    unfolding Let_def using h a b d e by (intro conjI)
qed

theorem solve_returns_to_solved_witness:
  "(\<forall>k. (0::real) \<le> (\<lambda>k::nat. 1 / 4) k \<and> (\<lambda>k::nat. 1 / 4) k < (1::real)) \<and>
   cubies ((complete ^^ 20) (solve True
     ((complete ^^ 20) (scramble (\<lambda>k. 1 / 4) True (initCube newCube))))) = solved"
proof -
  have r: "\<forall>k. (0::real) \<le> (\<lambda>k::nat. 1 / 4) k \<and> (\<lambda>k::nat. 1 / 4) k < (1::real)"
    by simp
  from solve_returns_to_solved [OF r, of "[]" True True] show ?thesis
    by (auto simp: Let_def)
qed

text \<open>
  C6. While a rotation is animating or the queue is not empty, \<open>scramble\<close>, \<open>solve\<close> and
  \<open>reset\<close> return the state they were given: cubies, history and queue stay as they were.
\<close>

theorem busy_requests_ignored:
  assumes "isAnimating s \<or> length (animationQueue s) > 0"
  shows "scramble random onComplete s = s \<and> solve onComplete s = s \<and> reset s = s"
  using assms by (auto simp: scramble_def solve_def reset_def)

theorem busy_requests_ignored_witness:
  "(isAnimating (rotateFace ''x'' 1 1 True None (initCube newCube)) \<or>
      length (animationQueue (rotateFace ''x'' 1 1 True None (initCube newCube))) > 0) \<and>
   solve True (rotateFace ''x'' 1 1 True None (initCube newCube)) =
     rotateFace ''x'' 1 1 True None (initCube newCube)"
  using busy_requests_ignored [of "rotateFace ''x'' 1 1 True None (initCube newCube)" undefined True]
  by (simp add: isAnimating_rotateFace)

section \<open>The grid invariant\<close>

lemma face_count:
  assumes "ax \<in> {''x'', ''y'', ''z''}" and "l \<in> {- 1, 0, 1}"
  shows "length (filter (onFace ax l) gridPoints) = 9"
proof -
  have "length (filter (onFace ''x'' (- 1)) gridPoints) = 9"
    "length (filter (onFace ''x'' 0) gridPoints) = 9"
    "length (filter (onFace ''x'' 1) gridPoints) = 9"
    "length (filter (onFace ''y'' (- 1)) gridPoints) = 9"
    "length (filter (onFace ''y'' 0) gridPoints) = 9"
    "length (filter (onFace ''y'' 1) gridPoints) = 9"
    "length (filter (onFace ''z'' (- 1)) gridPoints) = 9"
    "length (filter (onFace ''z'' 0) gridPoints) = 9"
    "length (filter (onFace ''z'' 1) gridPoints) = 9"
    by (simp_all add: gridPoints_def onFace_def totalSize_eq)
  then show ?thesis
    using assms by (elim insertE emptyE) (simp_all only:)
qed

lemma count_on_grid:
  assumes "onGrid cs"
  shows "length (filter (\<lambda>c. P (position c)) cs) = length (filter P gridPoints)"
proof -
  from assms have d: "distinct (map position cs)" and g: "set (map position cs) = set gridPoints"
    by (simp_all add: onGrid_def)
  have "length (filter (\<lambda>c. P (position c)) cs) = length (filter P (map position cs))"
    by (simp add: o_def)
  also have "\<dots> = card ({x. P x} \<inter> set (map position cs))"
    using d by (rule distinct_length_filter)
  also have "\<dots> = card ({x. P x} \<inter> set gridPoints)"
    by (simp only: g)
  also have "\<dots> = length (filter P gridPoints)"
    using distinct_gridPoints by (rule distinct_length_filter [symmetric])
  finally show ?thesis .
qed

lemma length_on_grid:
  assumes "onGrid cs"
  shows "length cs = 27"
  using count_on_grid [OF assms, of "\<lambda>p. True"] by (simp add: length_gridPoints)

text \<open>
  C2. In a reachable state with no rotation animating there are 27 cubies and their
  positions are the 27 points of the grid, each taken once. Hence for each axis and each
  layer -1, 0, 1 \<open>getCubiesOnFace\<close> returns 9 cubies, and they are the cubies whose
  coordinate along the axis is the layer times \<open>totalSize\<close>.
\<close>

theorem grid_invariant:
  assumes "reachable s" and "\<not> isAnimating s"
  shows "length (cubies s) = 27 \<and> distinct (map position (cubies s)) \<and>
         set (map position (cubies s)) = set gridPoints \<and>
         (\<forall>ax\<in>{''x'', ''y'', ''z''}. \<forall>l\<in>{- 1, 0, 1}.
            length (getCubiesOnFace ax l s) = 9 \<and>
            set (getCubiesOnFace ax l s) =
              {c \<in> set (cubies s). coordinate ax (position c) = of_int l * totalSize})"
proof -
  have g: "onGrid (cubies s)" using assms by (rule reachable_idle)
  then have d: "distinct (map position (cubies s))"
    and e: "set (map position (cubies s)) = set gridPoints"
    by (simp_all add: onGrid_def)
  have n: "length (cubies s) = 27" using g by (rule length_on_grid)
  have f: "length (getCubiesOnFace ax l s) = 9 \<and>
      set (getCubiesOnFace ax l s) =
        {c \<in> set (cubies s). coordinate ax (position c) = of_int l * totalSize}"
    if "ax \<in> {''x'', ''y'', ''z''}" and "l \<in> {- 1, 0, 1}" for ax l
  proof
    show "length (getCubiesOnFace ax l s) = 9"
      unfolding getCubiesOnFace_def count_on_grid [OF g] using that by (rule face_count)
    have "position c \<in> set gridPoints" if "c \<in> set (cubies s)" for c
      using that e by auto
    then show "set (getCubiesOnFace ax l s) =
        {c \<in> set (cubies s). coordinate ax (position c) = of_int l * totalSize}"
      using \<open>ax \<in> {''x'', ''y'', ''z''}\<close> by (auto simp: getCubiesOnFace_def onFace_grid)
  qed
  show ?thesis using n d e f by blast
qed

lemma reachable_init_idle: "\<not> isAnimating (initCube newCube)"
  by (simp add: initCube_def newCube_def)

lemma reachable_play: "reachable s \<Longrightarrow> reachable (play m s)"
  unfolding play_def complete_def by (intro reach_animate reach_rotateFace)

lemma solved_20:
  "solved ! 20 = (createCubie 1 (- 1) 1)\<lparr>parent := CubeGroup\<rparr>"
  by (simp add: solved_def initCube_def newCube_def upto_3)

lemma quarter_back: "cos (real_of_int (- 1) * pi / 2) = 0" "sin (real_of_int (- 1) * pi / 2) = - 1"
  by simp_all

lemma nth_turn:
  assumes "i < length cs"
  shows "turn ax l d cs ! i =
    (if onFace ax l (position (cs ! i)) then commitCubie ax (of_int d * pi / 2) (cs ! i) else cs ! i)"
  using assms by (simp add: turn_def)

lemma length_turn: "length (turn ax l d cs) = length cs"
  by (simp add: turn_def)

lemma moved_cubie:
  "position (cubies (play \<lparr>axis = ''y'', layer = 1, direction = - 1\<rparr>
      (play \<lparr>axis = ''x'', layer = 1, direction = - 1\<rparr> (initCube newCube))) ! 20) =
     \<lparr>vx = - totalSize, vy = totalSize, vz = totalSize\<rparr>"
proof -
  let ?R = "\<lparr>axis = ''x'', layer = 1, direction = - 1\<rparr>"
  let ?U = "\<lparr>axis = ''y'', layer = 1, direction = - 1\<rparr>"
  have c: "cubies (play ?U (play ?R (initCube newCube))) = turn ''y'' 1 (- 1) (turn ''x'' 1 (- 1) solved)"
    using cubies_played [of "[?R, ?U]"] by (simp add: applyMove_def)
  have len: "length solved = 27"
    using onGrid_solved by (rule length_on_grid)
  let ?c0 = "(createCubie 1 (- 1) 1)\<lparr>parent := CubeGroup\<rparr>"
  let ?c1 = "commitCubie ''x'' (real_of_int (- 1) * pi / 2) ?c0"
  have p1: "position ?c1 = \<lparr>vx = totalSize, vy = totalSize, vz = totalSize\<rparr>"
    unfolding commitCubie_def Let_def
    by (simp only: quarter_back rotatePoint_def createCubie_def cubie.simps vec3.simps if_True)
      (simp add: js_round_def totalSize_eq)
  have t1: "turn ''x'' 1 (- 1) solved ! 20 = ?c1"
    using len by (simp add: nth_turn solved_20 onFace_def createCubie_def del: of_int_minus)
  have p2: "position (commitCubie ''y'' (real_of_int (- 1) * pi / 2) ?c1)
      = \<lparr>vx = - totalSize, vy = totalSize, vz = totalSize\<rparr>"
    unfolding commitCubie_def [of "''y''"] Let_def
    by (simp only: quarter_back rotatePoint_def p1 cubie.simps vec3.simps list.inject char.inject simp_thms if_True if_False)
      (simp add: js_round_def totalSize_eq)
  have "turn ''y'' 1 (- 1) (turn ''x'' 1 (- 1) solved) ! 20
      = commitCubie ''y'' (real_of_int (- 1) * pi / 2) ?c1"
    using len by (simp add: nth_turn length_turn t1 p1 onFace_def del: of_int_minus)
  then show ?thesis
    by (simp only: c p2)
qed

text \<open>
  The invariant at work on a cube on which R and then U have been played: the cubie
  created at (1, -1, 1) now stands at (-1, 1, 1), and the right face still holds 9 cubies.
\<close>

theorem grid_invariant_witness:
  "reachable (play \<lparr>axis = ''y'', layer = 1, direction = - 1\<rparr>
      (play \<lparr>axis = ''x'', layer = 1, direction = - 1\<rparr> (initCube newCube))) \<and>
   \<not> isAnimating (play \<lparr>axis = ''y'', layer = 1, direction = - 1\<rparr>
      (play \<lparr>axis = ''x'', layer = 1, direction = - 1\<rparr> (initCube newCube))) \<and>
   moveHistory (play \<lparr>axis = ''y'', layer = 1, direction = - 1\<rparr>
      (play \<lparr>axis = ''x'', layer = 1, direction = - 1\<rparr> (initCube newCube))) =
     [\<lparr>axis = ''x'', layer = 1, direction = - 1\<rparr>, \<lparr>axis = ''y'', layer = 1, direction = - 1\<rparr>] \<and>
   position (cubies (initCube newCube) ! 20) =
     \<lparr>vx = totalSize, vy = - totalSize, vz = totalSize\<rparr> \<and>
   position (cubies (play \<lparr>axis = ''y'', layer = 1, direction = - 1\<rparr>
      (play \<lparr>axis = ''x'', layer = 1, direction = - 1\<rparr> (initCube newCube))) ! 20) =
     \<lparr>vx = - totalSize, vy = totalSize, vz = totalSize\<rparr> \<and>
   length (cubies (play \<lparr>axis = ''y'', layer = 1, direction = - 1\<rparr>
      (play \<lparr>axis = ''x'', layer = 1, direction = - 1\<rparr> (initCube newCube)))) = 27 \<and>
   distinct (map position (cubies (play \<lparr>axis = ''y'', layer = 1, direction = - 1\<rparr>
      (play \<lparr>axis = ''x'', layer = 1, direction = - 1\<rparr> (initCube newCube))))) \<and>
   length (getCubiesOnFace ''x'' 1 (play \<lparr>axis = ''y'', layer = 1, direction = - 1\<rparr>
      (play \<lparr>axis = ''x'', layer = 1, direction = - 1\<rparr> (initCube newCube)))) = 9"
proof -
  let ?R = "\<lparr>axis = ''x'', layer = 1, direction = - 1\<rparr>"
  let ?U = "\<lparr>axis = ''y'', layer = 1, direction = - 1\<rparr>"
  let ?s = "play ?U (play ?R (initCube newCube))"
  have r: "reachable ?s"
    by (intro reachable_play reach_init)
  have "idle ?s" using idle_played [of "[?R, ?U]"] by simp
  then have a: "\<not> isAnimating ?s" by (simp add: idle_def)
  have h: "moveHistory ?s = [?R, ?U]" using history_played [of "[?R, ?U]"] by simp
  have p0: "position (cubies (initCube newCube) ! 20) =
      \<lparr>vx = totalSize, vy = - totalSize, vz = totalSize\<rparr>"
    by (simp add: cubies_initCube solved_20 createCubie_def)
  note g = grid_invariant [OF r a]
  have n: "length (cubies ?s) = 27" using g by (rule conjunct1)
  have d: "distinct (map position (cubies ?s))"
    using g [THEN conjunct2] by (rule conjunct1)
  have "\<forall>l\<in>{- 1, 0, 1}. length (getCubiesOnFace ''x'' l ?s) = 9 \<and>
      set (getCubiesOnFace ''x'' l ?s) =
        {c \<in> set (cubies ?s). coordinate ''x'' (position c) = of_int l * totalSize}"
    using g [THEN conjunct2, THEN conjunct2, THEN conjunct2] by (rule bspec) simp
  then have f: "length (getCubiesOnFace ''x'' 1 ?s) = 9"
    by simp
  show ?thesis
    using r a h p0 moved_cubie n d f by (intro conjI)
qed

section \<open>The move inverse law\<close>

lemma map_of_MOVES:
  "map_of MOVES ''R'' = Some \<lparr>axis = ''x'', layer = 1, direction = - 1\<rparr>"
  "map_of MOVES (''R'' @ apostrophe) = Some \<lparr>axis = ''x'', layer = 1, direction = 1\<rparr>"
  "map_of MOVES ''L'' = Some \<lparr>axis = ''x'', layer = - 1, direction = 1\<rparr>"
  "map_of MOVES (''L'' @ apostrophe) = Some \<lparr>axis = ''x'', layer = - 1, direction = - 1\<rparr>"
  "map_of MOVES ''U'' = Some \<lparr>axis = ''y'', layer = 1, direction = - 1\<rparr>"
  "map_of MOVES (''U'' @ apostrophe) = Some \<lparr>axis = ''y'', layer = 1, direction = 1\<rparr>"
  "map_of MOVES ''D'' = Some \<lparr>axis = ''y'', layer = - 1, direction = 1\<rparr>"
  "map_of MOVES (''D'' @ apostrophe) = Some \<lparr>axis = ''y'', layer = - 1, direction = - 1\<rparr>"
  "map_of MOVES ''F'' = Some \<lparr>axis = ''z'', layer = 1, direction = - 1\<rparr>"
  "map_of MOVES (''F'' @ apostrophe) = Some \<lparr>axis = ''z'', layer = 1, direction = 1\<rparr>"
  "map_of MOVES ''B'' = Some \<lparr>axis = ''z'', layer = - 1, direction = 1\<rparr>"
  "map_of MOVES (''B'' @ apostrophe) = Some \<lparr>axis = ''z'', layer = - 1, direction = - 1\<rparr>"
  by (simp_all add: MOVES_def apostrophe_def)

lemmas map_of_MOVES_cons = map_of_MOVES [unfolded append.simps]

lemma moves_table:
  "\<forall>n\<in>set moveNames. \<exists>m m'. map_of MOVES n = Some m \<and> map_of MOVES (n @ apostrophe) = Some m' \<and>
      axis m' = axis m \<and> layer m' = layer m \<and> direction m' = - direction m"
  unfolding moveNames_eq by (simp add: map_of_MOVES_cons)

lemma moves_names:
  "map fst MOVES = concat (map (\<lambda>n. [n, n @ apostrophe]) moveNames)"
  by (simp add: moveNames_eq MOVES_def)

text \<open>
  C3. On a reachable state with no rotation animating, a rotation played to its end and
  followed by the rotation of the same axis and layer with the direction negated, also
  played to its end, leaves every cubie with the position, orientation and parent it had.
  The move table consists of the six letters and their primed forms, and a letter and its
  primed form have the same axis and layer and opposite directions.
\<close>

theorem move_inverse:
  assumes "reachable s" and "\<not> isAnimating s"
  shows "cubies (complete (rotateFace ax l (- d) rec' None
           (complete (rotateFace ax l d rec None s)))) = cubies s \<and>
         map fst MOVES = concat (map (\<lambda>n. [n, n @ apostrophe]) moveNames) \<and>
         (\<forall>n\<in>set moveNames. \<exists>m m'.
            map_of MOVES n = Some m \<and> map_of MOVES (n @ apostrophe) = Some m' \<and>
            axis m' = axis m \<and> layer m' = layer m \<and> direction m' = - direction m)"
proof -
  have i: "idle s" and g: "onGrid (cubies s)"
    using assms by (rule reachable_idle)+
  let ?s = "s\<lparr>cubies := turn ax l d (cubies s),
      moveHistory := (if rec then moveHistory s @ [\<lparr>axis = ax, layer = l, direction = d\<rparr>]
                      else moveHistory s)\<rparr>"
  have a: "complete (rotateFace ax l d rec None s) = ?s"
    by (simp add: complete_rotateFace_idle [OF i])
  have j: "idle ?s" using i by (rule idle_turned)
  have p: "\<forall>c\<in>set (cubies s). parent c = CubeGroup"
    using i by (simp add: idle_def)
  have "cubies (complete (rotateFace ax l (- d) rec' None ?s)) = turn ax l (- d) (turn ax l d (cubies s))"
    by (simp add: complete_rotateFace_idle [OF j])
  also have "\<dots> = cubies s"
    using g p by (intro turn_inverse) (simp_all add: onGrid_def)
  finally have c: "cubies (complete (rotateFace ax l (- d) rec' None ?s)) = cubies s" .
  show ?thesis
    unfolding a using c moves_names moves_table by (intro conjI)
qed

theorem move_inverse_witness:
  "reachable (initCube newCube) \<and> \<not> isAnimating (initCube newCube) \<and>
   cubies (complete (rotateFace ''x'' 1 (- 1) True None
     (complete (rotateFace ''x'' 1 1 True None (initCube newCube))))) = cubies (initCube newCube)"
  using move_inverse [OF reach_init reachable_init_idle, of "''x''" 1 1 True True]
    reach_init reachable_init_idle
  by simp

section \<open>Solving never records\<close>

lemma moveHistory_rotateFace: "moveHistory (rotateFace ax l d rec cb s) = moveHistory s"
  by (simp add: rotateFace_def Let_def)

lemma moveHistory_solveDoNextMove: "moveHistory (solveDoNextMove ms i oc s) = moveHistory s"
  by (simp add: solveDoNextMove_def moveHistory_rotateFace Let_def)

lemma solve_partial:
  assumes "idle s" and "i + k \<le> length ms"
  shows "(complete ^^ k) (solveDoNextMove ms i oc s) =
           solveDoNextMove ms (i + k) oc (s\<lparr>cubies := fold undoMove (take k (drop i ms)) (cubies s)\<rparr>)"
  using assms
proof (induction k arbitrary: i s)
  case 0
  then show ?case by simp
next
  case (Suc k)
  then have lt: "i < length ms" by simp
  let ?s = "s\<lparr>cubies := undoMove (ms ! i) (cubies s)\<rparr>"
  have i: "idle ?s" unfolding undoMove_def using Suc.prems(1) by (rule idle_turned)
  have "(complete ^^ Suc k) (solveDoNextMove ms i oc s)
      = (complete ^^ k) (complete (solveDoNextMove ms i oc s))"
    by (simp add: funpow_swap1)
  also have "\<dots> = (complete ^^ k) (solveDoNextMove ms (Suc i) oc ?s)"
    by (simp only: solve_step [OF Suc.prems(1) lt])
  also have "\<dots> = solveDoNextMove ms (Suc i + k) oc
      (?s\<lparr>cubies := fold undoMove (take k (drop (Suc i) ms)) (cubies ?s)\<rparr>)"
    using Suc.prems(2) by (intro Suc.IH [OF i]) simp
  also have "\<dots> = solveDoNextMove ms (i + Suc k) oc
      (s\<lparr>cubies := fold undoMove (take (Suc k) (drop i ms)) (cubies s)\<rparr>)"
    using lt by (simp add: Cons_nth_drop_Suc [symmetric])
  finally show ?case .
qed

lemma length_solve_commits:
  assumes "idle s" and "i \<le> length ms"
  shows "length (commits (length ms - i) (solveDoNextMove ms i oc s)) = length ms - i"
  using solve_commits [OF assms, of oc, THEN conjunct1, THEN arg_cong, of length] by simp

text \<open>
  C7. On an idle cube with an empty history \<open>solve\<close> calls \<open>onComplete(true)\<close> and
  changes nothing else, so no rotation starts. With a non-empty history of \<open>n\<close> moves the
  history is empty from the call on and after each of the \<open>n\<close> final frames, the \<open>n\<close>
  rotations that commit all have \<open>record = false\<close>, and at the end \<open>onComplete(false)\<close>
  has been called, which is not the call for the cube that was already solved.
\<close>

theorem solve_history:
  assumes "idle s"
  shows "(moveHistory s = [] \<longrightarrow>
            solve True s = s\<lparr>notified := notified s @ [SolveComplete True]\<rparr> \<and> solve False s = s) \<and>
         (moveHistory s \<noteq> [] \<longrightarrow>
            (\<forall>k\<le>length (moveHistory s). moveHistory ((complete ^^ k) (solve oc s)) = []) \<and>
            length (commits (length (moveHistory s)) (solve oc s)) = length (moveHistory s) \<and>
            (\<forall>r\<in>set (commits (length (moveHistory s)) (solve oc s)). \<not> record_flag r) \<and>
            notified ((complete ^^ length (moveHistory s)) (solve True s)) =
              notified s @ [SolveComplete False]) \<and>
         SolveComplete False \<noteq> SolveComplete True"
proof (intro conjI impI allI)
  assume "moveHistory s = []"
  then show "solve True s = s\<lparr>notified := notified s @ [SolveComplete True]\<rparr>" "solve False s = s"
    using assms by (simp_all add: solve_def idle_def)
next
  show "SolveComplete False \<noteq> SolveComplete True" by simp
next
  assume ne: "moveHistory s \<noteq> []"
  let ?s = "s\<lparr>moveHistory := []\<rparr>"
  let ?ms = "rev (moveHistory s)"
  have i: "idle ?s" using assms by (simp add: idle_def)
  have e: "solve oc s = solveDoNextMove ?ms 0 oc ?s" for oc
    using assms ne by (simp add: solve_def idle_def Let_def)
  show "length (commits (length (moveHistory s)) (solve oc s)) = length (moveHistory s)"
    using length_solve_commits [OF i, of 0 ?ms oc] by (simp add: e)
  show "\<forall>r\<in>set (commits (length (moveHistory s)) (solve oc s)). \<not> record_flag r"
    using solve_run_commits [OF assms, of oc] by (rule conjunct2)
  show "notified ((complete ^^ length (moveHistory s)) (solve True s)) =
      notified s @ [SolveComplete False]"
    using ne by (simp add: solve_run [OF assms])
  fix k assume "k \<le> length (moveHistory s)"
  then have "(complete ^^ k) (solve oc s) =
      solveDoNextMove ?ms (0 + k) oc (?s\<lparr>cubies := fold undoMove (take k (drop 0 ?ms)) (cubies ?s)\<rparr>)"
    unfolding e by (intro solve_partial [OF i]) simp
  then show "moveHistory ((complete ^^ k) (solve oc s)) = []"
    by (simp add: moveHistory_solveDoNextMove)
qed

theorem solve_history_witness:
  "idle (initCube newCube) \<and> moveHistory (initCube newCube) = [] \<and>
   solve True (initCube newCube) =
     (initCube newCube)\<lparr>notified := notified (initCube newCube) @ [SolveComplete True]\<rparr> \<and>
   idle (play \<lparr>axis = ''x'', layer = 1, direction = - 1\<rparr> (initCube newCube)) \<and>
   moveHistory (play \<lparr>axis = ''x'', layer = 1, direction = - 1\<rparr> (initCube newCube)) \<noteq> [] \<and>
   moveHistory (complete (solve True
     (play \<lparr>axis = ''x'', layer = 1, direction = - 1\<rparr> (initCube newCube)))) = []"
proof -
  let ?m = "\<lparr>axis = ''x'', layer = 1, direction = - 1\<rparr>"
  let ?s = "play ?m (initCube newCube)"
  have h0: "moveHistory (initCube newCube) = []" by (simp add: initCube_def)
  have h1: "moveHistory ?s = [?m]" using history_played [of "[?m]"] by simp
  have i1: "idle ?s" using idle_played [of "[?m]"] by simp
  have ne: "moveHistory ?s \<noteq> []" by (simp only: h1) simp
  note w0 = solve_history [OF idle_init, of True, THEN conjunct1, THEN mp, OF h0, THEN conjunct1]
  note w1 = solve_history [OF i1, of True, THEN conjunct2, THEN conjunct1, THEN mp, OF ne,
      THEN conjunct1, THEN spec, of 1, THEN mp]
  have "moveHistory ((complete ^^ 1) (solve True ?s)) = []"
    by (rule w1) (simp only: h1, simp)
  then have b: "moveHistory (complete (solve True ?s)) = []" by simp
  show ?thesis
    using idle_init h0 w0 i1 ne b by (intro conjI)
qed

section \<open>Completing a swipe\<close>

text \<open>
  C5. When a swipe is released with a rotation group and a face selected, the angle it
  has accumulated is snapped to \<open>k\<close> quarter turns, the nearest multiple of 90 degrees
  (no further than 45 degrees away), the cubies of the group are committed at that angle,
  and the history receives one move of direction 1 when the net turn is a quarter turn
  (\<open>k mod 4 = 1\<close>), one of direction -1 when it is three quarter turns, two of direction
  1 when it is a half turn, and nothing when there is no net turn. So 40 degrees snaps to
  0 and records nothing, 50 to 90 with one move of direction 1, 185 to 180 with two moves
  of direction 1, and -100 to -90 with one move of direction -1.
\<close>

theorem swipe_snaps_to_quarter_turns:
  assumes "rotationGroup ts" and "swipe ts = Some f"
  shows "(let a = currentRotation ts;
              k = js_round (a / (pi / 2));
              s' = snd (completeFaceRotation (ts, s));
              forward = \<lparr>axis = axis f, layer = layer f, direction = 1\<rparr>;
              backward = \<lparr>axis = axis f, layer = layer f, direction = - 1\<rparr>
          in \<bar>of_int k * (pi / 2) - a\<bar> \<le> pi / 4 \<and>
             cubies s' = map (\<lambda>cubie. if parent cubie = RotationGroup
                                then commitCubie (axis f) (of_int k * (pi / 2)) cubie
                                else cubie) (cubies s) \<and>
             moveHistory s' = moveHistory s @
               (if k mod 4 = 1 then [forward]
                else if k mod 4 = 3 then [backward]
                else if k mod 4 = 2 then [forward, forward]
                else []) \<and>
             (a = 40 * pi / 180 \<longrightarrow> k = 0 \<and> moveHistory s' = moveHistory s) \<and>
             (a = 50 * pi / 180 \<longrightarrow> k = 1 \<and> moveHistory s' = moveHistory s @ [forward]) \<and>
             (a = 185 * pi / 180 \<longrightarrow> k = 2 \<and> moveHistory s' = moveHistory s @ [forward, forward]) \<and>
             (a = - 100 * pi / 180 \<longrightarrow> k = - 1 \<and> moveHistory s' = moveHistory s @ [backward]))"
proof -
  define a where "a = currentRotation ts"
  define k where "k = js_round (a / (pi / 2))"
  define s' where "s' = snd (completeFaceRotation (ts, s))"
  let ?forward = "\<lparr>axis = axis f, layer = layer f, direction = 1\<rparr>"
  let ?backward = "\<lparr>axis = axis f, layer = layer f, direction = - 1\<rparr>"
  have c: "completeFaceRotation (ts, s) = finalizeFaceRotation (of_int k * (pi / 2)) (ts, s)"
    unfolding k_def a_def using assms by (rule complete_swipe)
  have near: "\<bar>of_int k * (pi / 2) - a\<bar> \<le> pi / 4"
    unfolding k_def by (rule snap_nearest)
  have cs: "cubies s' = map (\<lambda>cubie. if parent cubie = RotationGroup
                                then commitCubie (axis f) (of_int k * (pi / 2)) cubie
                                else cubie) (cubies s)"
    unfolding s'_def c finalize_swipe [OF assms] by simp
  have h: "moveHistory s' = moveHistory s @
               (if k mod 4 = 1 then [?forward]
                else if k mod 4 = 3 then [?backward]
                else if k mod 4 = 2 then [?forward, ?forward]
                else [])"
    unfolding s'_def c finalize_swipe [OF assms] by simp
  have e1: "a = 40 * pi / 180 \<longrightarrow> k = 0 \<and> moveHistory s' = moveHistory s"
  proof
    assume that: "a = 40 * pi / 180"
    have "k = 0" unfolding k_def that by (rule snap_examples)
    then show "k = 0 \<and> moveHistory s' = moveHistory s" using h by simp
  qed
  have e2: "a = 50 * pi / 180 \<longrightarrow> k = 1 \<and> moveHistory s' = moveHistory s @ [?forward]"
  proof
    assume that: "a = 50 * pi / 180"
    have "k = 1" unfolding k_def that by (rule snap_examples)
    then show "k = 1 \<and> moveHistory s' = moveHistory s @ [?forward]" using h by simp
  qed
  have e3: "a = 185 * pi / 180 \<longrightarrow> k = 2 \<and> moveHistory s' = moveHistory s @ [?forward, ?forward]"
  proof
    assume that: "a = 185 * pi / 180"
    have "k = 2" unfolding k_def that by (rule snap_examples)
    then show "k = 2 \<and> moveHistory s' = moveHistory s @ [?forward, ?forward]" using h by simp
  qed
  have e4: "a = - 100 * pi / 180 \<longrightarrow> k = - 1 \<and> moveHistory s' = moveHistory s @ [?backward]"
  proof
    assume that: "a = - 100 * pi / 180"
    have "k = - 1" unfolding k_def that by (rule snap_examples)
    then show "k = - 1 \<and> moveHistory s' = moveHistory s @ [?backward]" using h by simp
  qed
  show ?thesis
    unfolding Let_def a_def [symmetric] k_def [symmetric] s'_def [symmetric]
    using near cs h e1 e2 e3 e4 by (intro conjI)
qed

theorem swipe_snaps_to_quarter_turns_witness:
  "rotationGroup \<lparr>rotationGroup = True, swipe = Some \<lparr>axis = ''x'', layer = 1\<rparr>, currentRotation = 50 * pi / 180\<rparr> \<and>
   swipe \<lparr>rotationGroup = True, swipe = Some \<lparr>axis = ''x'', layer = 1\<rparr>, currentRotation = 50 * pi / 180\<rparr> = Some \<lparr>axis = ''x'', layer = 1\<rparr> \<and>
   moveHistory (snd (completeFaceRotation (\<lparr>rotationGroup = True, swipe = Some \<lparr>axis = ''x'', layer = 1\<rparr>, currentRotation = 40 * pi / 180\<rparr>, initCube newCube))) = [] \<and>
   moveHistory (snd (completeFaceRotation (\<lparr>rotationGroup = True, swipe = Some \<lparr>axis = ''x'', layer = 1\<rparr>, currentRotation = 50 * pi / 180\<rparr>, initCube newCube))) = [\<lparr>axis = ''x'', layer = 1, direction = 1\<rparr>] \<and>
   moveHistory (snd (completeFaceRotation (\<lparr>rotationGroup = True, swipe = Some \<lparr>axis = ''x'', layer = 1\<rparr>, currentRotation = 185 * pi / 180\<rparr>, initCube newCube))) = [\<lparr>axis = ''x'', layer = 1, direction = 1\<rparr>, \<lparr>axis = ''x'', layer = 1, direction = 1\<rparr>] \<and>
   moveHistory (snd (completeFaceRotation (\<lparr>rotationGroup = True, swipe = Some \<lparr>axis = ''x'', layer = 1\<rparr>, currentRotation = - 100 * pi / 180\<rparr>, initCube newCube))) = [\<lparr>axis = ''x'', layer = 1, direction = - 1\<rparr>]"
proof -
  have h0: "moveHistory (initCube newCube) = []" by (simp add: initCube_def)
  have r0: "rotationGroup \<lparr>rotationGroup = True, swipe = Some \<lparr>axis = ''x'', layer = 1\<rparr>, currentRotation = 40 * pi / 180\<rparr>" and s0: "swipe \<lparr>rotationGroup = True, swipe = Some \<lparr>axis = ''x'', layer = 1\<rparr>, currentRotation = 40 * pi / 180\<rparr> = Some \<lparr>axis = ''x'', layer = 1\<rparr>"
    and a0: "currentRotation \<lparr>rotationGroup = True, swipe = Some \<lparr>axis = ''x'', layer = 1\<rparr>, currentRotation = 40 * pi / 180\<rparr> = 40 * pi / 180"
    by simp_all
  note w0 = swipe_snaps_to_quarter_turns [OF r0 s0, of "initCube newCube", unfolded Let_def,
      THEN conjunct2, THEN conjunct2, THEN conjunct2, THEN conjunct1, THEN mp, OF a0, THEN conjunct2]
  have m0: "moveHistory (snd (completeFaceRotation (\<lparr>rotationGroup = True, swipe = Some \<lparr>axis = ''x'', layer = 1\<rparr>, currentRotation = 40 * pi / 180\<rparr>, initCube newCube))) = []"
    using w0 by (simp add: h0)
  have r1: "rotationGroup \<lparr>rotationGroup = True, swipe = Some \<lparr>axis = ''x'', layer = 1\<rparr>, currentRotation = 50 * pi / 180\<rparr>" and s1: "swipe \<lparr>rotationGroup = True, swipe = Some \<lparr>axis = ''x'', layer = 1\<rparr>, currentRotation = 50 * pi / 180\<rparr> = Some \<lparr>axis = ''x'', layer = 1\<rparr>"
    and a1: "currentRotation \<lparr>rotationGroup = True, swipe = Some \<lparr>axis = ''x'', layer = 1\<rparr>, currentRotation = 50 * pi / 180\<rparr> = 50 * pi / 180"
    by simp_all
  note w1 = swipe_snaps_to_quarter_turns [OF r1 s1, of "initCube newCube", unfolded Let_def,
      THEN conjunct2, THEN conjunct2, THEN conjunct2, THEN conjunct2, THEN conjunct1, THEN mp, OF a1, THEN conjunct2]
  have m1: "moveHistory (snd (completeFaceRotation (\<lparr>rotationGroup = True, swipe = Some \<lparr>axis = ''x'', layer = 1\<rparr>, currentRotation = 50 * pi / 180\<rparr>, initCube newCube))) = [\<lparr>axis = ''x'', layer = 1, direction = 1\<rparr>]"
    using w1 by (simp add: h0)
  have r2: "rotationGroup \<lparr>rotationGroup = True, swipe = Some \<lparr>axis = ''x'', layer = 1\<rparr>, currentRotation = 185 * pi / 180\<rparr>" and s2: "swipe \<lparr>rotationGroup = True, swipe = Some \<lparr>axis = ''x'', layer = 1\<rparr>, currentRotation = 185 * pi / 180\<rparr> = Some \<lparr>axis = ''x'', layer = 1\<rparr>"
    and a2: "currentRotation \<lparr>rotationGroup = True, swipe = Some \<lparr>axis = ''x'', layer = 1\<rparr>, currentRotation = 185 * pi / 180\<rparr> = 185 * pi / 180"
    by simp_all
  note w2 = swipe_snaps_to_quarter_turns [OF r2 s2, of "initCube newCube", unfolded Let_def,
      THEN conjunct2, THEN conjunct2, THEN conjunct2, THEN conjunct2, THEN conjunct2, THEN conjunct1, THEN mp, OF a2, THEN conjunct2]
  have m2: "moveHistory (snd (completeFaceRotation (\<lparr>rotationGroup = True, swipe = Some \<lparr>axis = ''x'', layer = 1\<rparr>, currentRotation = 185 * pi / 180\<rparr>, initCube newCube))) = [\<lparr>axis = ''x'', layer = 1, direction = 1\<rparr>, \<lparr>axis = ''x'', layer = 1, direction = 1\<rparr>]"
    using w2 by (simp add: h0)
  have r3: "rotationGroup \<lparr>rotationGroup = True, swipe = Some \<lparr>axis = ''x'', layer = 1\<rparr>, currentRotation = - 100 * pi / 180\<rparr>" and s3: "swipe \<lparr>rotationGroup = True, swipe = Some \<lparr>axis = ''x'', layer = 1\<rparr>, currentRotation = - 100 * pi / 180\<rparr> = Some \<lparr>axis = ''x'', layer = 1\<rparr>"
    and a3: "currentRotation \<lparr>rotationGroup = True, swipe = Some \<lparr>axis = ''x'', layer = 1\<rparr>, currentRotation = - 100 * pi / 180\<rparr> = - 100 * pi / 180"
    by simp_all
  note w3 = swipe_snaps_to_quarter_turns [OF r3 s3, of "initCube newCube", unfolded Let_def,
      THEN conjunct2, THEN conjunct2, THEN conjunct2, THEN conjunct2, THEN conjunct2, THEN conjunct2, THEN mp, OF a3, THEN conjunct2]
  have m3: "moveHistory (snd (completeFaceRotation (\<lparr>rotationGroup = True, swipe = Some \<lparr>axis = ''x'', layer = 1\<rparr>, currentRotation = - 100 * pi / 180\<rparr>, initCube newCube))) = [\<lparr>axis = ''x'', layer = 1, direction = - 1\<rparr>]"
    using w3 by (simp add: h0)
  show ?thesis
    using r1 s1 m0 m1 m2 m3 by (intro conjI)
qed

section \<open>Requests made during an animation\<close>

lemma rotateFace_control:
  "isAnimating (rotateFace ax l d rec cb s) = True"
  "running (rotateFace ax l d rec cb s) =
     (if isAnimating s then running s
      else Some \<lparr>axis = ax, layer = l, direction = d, record_flag = rec, callback = cb\<rparr>)"
  "animationQueue (rotateFace ax l d rec cb s) =
     (if isAnimating s
      then animationQueue s @ [\<lparr>axis = ax, layer = l, direction = d, record_flag = rec, callback = cb\<rparr>]
      else animationQueue s)"
  by (simp_all add: rotateFace_def Let_def)

lemma complete_cases:
  "complete s =
     (case running s of
        None \<Rightarrow> s
      | Some r \<Rightarrow> serveQueue (case callback r of None \<Rightarrow> committed r s
                               | Some cb \<Rightarrow> invoke cb (committed r s)))"
  by (simp add: complete_running complete_not_running split: option.splits)

lemma serveQueue_control:
  "running (serveQueue s) =
     (if animationQueue s = [] \<or> isAnimating s then running s
      else Some (hd (animationQueue s)))"
  "animationQueue (serveQueue s) =
     (if animationQueue s = [] then []
      else if isAnimating s then tl (animationQueue s) @ [hd (animationQueue s)]
      else tl (animationQueue s))"
  "isAnimating (serveQueue s) = (animationQueue s \<noteq> [] \<or> isAnimating s)"
  by (simp_all add: serveQueue_def Let_def rotateFace_control)

lemma solveDoNextMove_control:
  "isAnimating (solveDoNextMove ms i oc s) = (i < length ms \<or> isAnimating s)"
  "running (solveDoNextMove ms i oc s) =
     (if i < length ms \<and> \<not> isAnimating s
      then Some \<lparr>axis = axis (ms ! i), layer = layer (ms ! i), direction = - direction (ms ! i),
                  record_flag = False, callback = Some (SolveNext ms i oc)\<rparr>
      else running s)"
  "animationQueue (solveDoNextMove ms i oc s) =
     (if i < length ms \<and> isAnimating s
      then animationQueue s @
        [\<lparr>axis = axis (ms ! i), layer = layer (ms ! i), direction = - direction (ms ! i),
          record_flag = False, callback = Some (SolveNext ms i oc)\<rparr>]
      else animationQueue s)"
  by (simp_all add: solveDoNextMove_def Let_def rotateFace_control)

text \<open>
  The requests made while the first move of a solve of two moves is animating do not
  commit in the order of the requests. The callback of the committing move starts the
  next move of the solve before the queue is served, so the request taken from the head
  of the queue finds the cube animating and is put back at the tail.
\<close>

lemma queue_rotates_during_solve:
  assumes "idle s" and "moveHistory s = [a, b]"
    and s2_def: "s2 = solve oc s"
    and s3_def: "s3 = rotateFace ax3 l3 d3 True None
                  (rotateFace ax2 l2 d2 True None (rotateFace ax1 l1 d1 True None s2))"
  shows "isAnimating s2 \<and>
         map requestedMove (animationQueue s3) =
           [\<lparr>axis = ax1, layer = l1, direction = d1\<rparr>,
            \<lparr>axis = ax2, layer = l2, direction = d2\<rparr>,
            \<lparr>axis = ax3, layer = l3, direction = d3\<rparr>] \<and>
         map requestedMove (commits 5 s3) =
           [negated b, negated a,
            \<lparr>axis = ax2, layer = l2, direction = d2\<rparr>,
            \<lparr>axis = ax3, layer = l3, direction = d3\<rparr>,
            \<lparr>axis = ax1, layer = l1, direction = d1\<rparr>]"
proof -
  let ?s = "s\<lparr>moveHistory := []\<rparr>"
  from assms(1) have i: "\<not> isAnimating s" "running s = None" "animationQueue s = []"
    by (simp_all add: idle_def)
  have e: "s2 = solveDoNextMove [b, a] 0 oc ?s"
    using i assms(2) by (simp add: s2_def solve_def Let_def)
  have c2: "isAnimating s2" "animationQueue s2 = []"
    "running s2 = Some \<lparr>axis = axis b, layer = layer b, direction = - direction b,
                  record_flag = False, callback = Some (SolveNext [b, a] 0 oc)\<rparr>"
    unfolding e using i by (simp_all add: solveDoNextMove_control)
  let ?r1 = "\<lparr>axis = ax1, layer = l1, direction = d1, record_flag = True, callback = None\<rparr>"
  let ?r2 = "\<lparr>axis = ax2, layer = l2, direction = d2, record_flag = True, callback = None\<rparr>"
  let ?r3 = "\<lparr>axis = ax3, layer = l3, direction = d3, record_flag = True, callback = None\<rparr>"
  have c3: "isAnimating s3" "animationQueue s3 = [?r1, ?r2, ?r3]" "running s3 = running s2"
    unfolding s3_def using c2 by (simp_all add: rotateFace_control)
  show ?thesis
    using c2 c3
    by (simp add: eval_nat_numeral complete_cases serveQueue_control solveDoNextMove_control
        committed_fields rotateFace_control requestedMove_def negated_def)
qed

text \<open>
  A request made while a rotation is animating changes nothing but the queue, to which it
  is appended as it was made. And when neither the rotation in flight nor any queued request
  has a callback, the rotations commit in the order of the queue.
\<close>

lemma rotateFace_while_animating:
  assumes "isAnimating s"
  shows "rotateFace ax l d rec cb s =
           s\<lparr>animationQueue := animationQueue s @
              [\<lparr>axis = ax, layer = l, direction = d, record_flag = rec, callback = cb\<rparr>]\<rparr>"
  using assms by (simp add: rotateFace_def)

lemma fifo_without_callbacks:
  assumes "running s = Some r" and "callback r = None"
    and "\<forall>q\<in>set (animationQueue s). callback q = None"
  shows "commits (Suc (length (animationQueue s))) s = r # animationQueue s"
  using assms
proof (induction "animationQueue s" arbitrary: s r)
  case Nil
  have "running (complete s) = None"
    using Nil.prems(1,2) Nil.hyps [symmetric]
    by (simp add: complete_cases serveQueue_control committed_fields)
  then have "commits (Suc 0) s = [r]"
    using Nil.prems(1) by (simp del: commits.simps(2) add: commits.simps(2) [of 0])
  then show ?case using Nil.hyps [symmetric] by simp
next
  case (Cons q qs)
  have c: "running (complete s) = Some q" "animationQueue (complete s) = qs"
    using Cons.prems(1,2) Cons.hyps(2) [symmetric]
    by (simp_all add: complete_cases serveQueue_control committed_fields)
  have ih: "commits (Suc (length (animationQueue (complete s)))) (complete s)
      = q # animationQueue (complete s)"
  proof (rule Cons.hyps(1))
    show "qs = animationQueue (complete s)" by (simp only: c)
    show "running (complete s) = Some q" by (rule c)
    show "callback q = None"
      using Cons.prems(3) Cons.hyps(2) [symmetric] by simp
    show "\<forall>q\<in>set (animationQueue (complete s)). callback q = None"
      using Cons.prems(3) Cons.hyps(2) [symmetric] by (simp add: c)
  qed
  have "commits (Suc (length (animationQueue s))) s
      = r # commits (Suc (length (animationQueue (complete s)))) (complete s)"
    using Cons.prems(1) Cons.hyps(2) [symmetric] by (simp add: c)
  then show ?case
    unfolding ih using Cons.hyps(2) [symmetric] by (simp add: c)
qed

text \<open>
  C4. Play R and U on a fresh cube and call \<open>solve\<close>; while its first move, the reversal
  of U, is animating, request F, L and D. The three requests are queued in the order of
  the requests, each as it was made. The next five rotations to commit are the reversal of
  U, the reversal of R, then L, D and F: the first request commits last.
\<close>

theorem queued_requests_commit_out_of_order:
  "(let s1 = complete (executeMove ''U'' True None
               (complete (executeMove ''R'' True None (initCube newCube))));
        s2 = solve True s1;
        s3 = executeMove ''D'' True None (executeMove ''L'' True None (executeMove ''F'' True None s2))
    in moveHistory s1 = [\<lparr>axis = ''x'', layer = 1, direction = - 1\<rparr>, \<lparr>axis = ''y'', layer = 1, direction = - 1\<rparr>] \<and>
       isAnimating s2 \<and>
       animationQueue s3 =
         [\<lparr>axis = ''z'', layer = 1, direction = - 1, record_flag = True, callback = None\<rparr>,
          \<lparr>axis = ''x'', layer = - 1, direction = 1, record_flag = True, callback = None\<rparr>,
          \<lparr>axis = ''y'', layer = - 1, direction = 1, record_flag = True, callback = None\<rparr>] \<and>
       map requestedMove (commits 5 s3) =
         [\<lparr>axis = ''y'', layer = 1, direction = 1\<rparr>,
          \<lparr>axis = ''x'', layer = 1, direction = 1\<rparr>,
          \<lparr>axis = ''x'', layer = - 1, direction = 1\<rparr>,
          \<lparr>axis = ''y'', layer = - 1, direction = 1\<rparr>,
          \<lparr>axis = ''z'', layer = 1, direction = - 1\<rparr>])"
proof -
  let ?R = "\<lparr>axis = ''x'', layer = 1, direction = - 1\<rparr>"
  let ?U = "\<lparr>axis = ''y'', layer = 1, direction = - 1\<rparr>"
  let ?s1 = "complete (executeMove ''U'' True None
               (complete (executeMove ''R'' True None (initCube newCube))))"
  let ?s2 = "solve True ?s1"
  let ?s3 = "executeMove ''D'' True None (executeMove ''L'' True None (executeMove ''F'' True None ?s2))"
  have p: "?s1 = fold play [?R, ?U] (initCube newCube)"
    by (simp add: play_def executeMove_def map_of_MOVES)
  have i: "idle ?s1" unfolding p by (rule idle_played)
  have h: "moveHistory ?s1 = [?R, ?U]" unfolding p by (rule history_played)
  have e: "?s3 = rotateFace ''y'' (- 1) 1 True None
      (rotateFace ''x'' (- 1) 1 True None (rotateFace ''z'' 1 (- 1) True None ?s2))"
    by (simp add: executeMove_def map_of_MOVES)
  note q = queue_rotates_during_solve [OF i h refl e]
  have a: "isAnimating ?s2" using q by (rule conjunct1)
  have c: "map requestedMove (commits 5 ?s3) =
         [\<lparr>axis = ''y'', layer = 1, direction = 1\<rparr>,
          \<lparr>axis = ''x'', layer = 1, direction = 1\<rparr>,
          \<lparr>axis = ''x'', layer = - 1, direction = 1\<rparr>,
          \<lparr>axis = ''y'', layer = - 1, direction = 1\<rparr>,
          \<lparr>axis = ''z'', layer = 1, direction = - 1\<rparr>]"
    using q [THEN conjunct2, THEN conjunct2] by (simp add: negated_def)
  have "animationQueue ?s2 = []"
    using i h by (simp add: solve_def idle_def Let_def solveDoNextMove_control)
  then have b: "animationQueue ?s3 =
         [\<lparr>axis = ''z'', layer = 1, direction = - 1, record_flag = True, callback = None\<rparr>,
          \<lparr>axis = ''x'', layer = - 1, direction = 1, record_flag = True, callback = None\<rparr>,
          \<lparr>axis = ''y'', layer = - 1, direction = 1, record_flag = True, callback = None\<rparr>]"
    unfolding e using a by (simp add: rotateFace_control)
  show ?thesis
    unfolding Let_def using h a b c by (intro conjI)
qed

end
